theory Spec2Isabelle
  imports Complex_Main "HOL-Library.Code_Target_Numeral"
begin

unbundle bit_operations_syntax

section \<open>JavaScript numbers and strings\<close>

text \<open>
  A JavaScript string is a sequence of UTF-16 code units; \<open>charCodeAt\<close> reads one of
  them. Strings are modelled as lists of code units, each a natural number.
  Numbers are modelled as mathematical integers and reals: the integer computations of
  the generator and of the hash stay under \<open>2 ^ 53\<close>, where double arithmetic is exact;
  the rounding of floating-point fractions is not modelled.
\<close>

type_synonym jsstring = "nat list"

text \<open>\<open>ToInt32\<close>: the operand of every bitwise operator is reduced to the signed 32-bit range.\<close>

definition toInt32 :: "int \<Rightarrow> int" where
  "toInt32 k = signed_take_bit 31 k"

text \<open>\<open>a << n\<close> and \<open>a & b\<close> on numbers holding integers.\<close>

definition js_shl :: "int \<Rightarrow> nat \<Rightarrow> int" where
  "js_shl a n = toInt32 (push_bit (n mod 32) (toInt32 a))"

definition js_and :: "int \<Rightarrow> int \<Rightarrow> int" where
  "js_and a b = toInt32 a AND toInt32 b"

text \<open>
  \<open>a % b\<close> for a divisor other than 0: the quotient is truncated, so the remainder takes
  the sign of the dividend.
\<close>

definition js_rem :: "int \<Rightarrow> int \<Rightarrow> int" where
  "js_rem a b = sgn a * (\<bar>a\<bar> mod \<bar>b\<bar>)"

definition js_trunc :: "real \<Rightarrow> int" where
  "js_trunc r = (if 0 \<le> r then \<lfloor>r\<rfloor> else \<lceil>r\<rceil>)"

definition js_fmod :: "real \<Rightarrow> real \<Rightarrow> real" where
  "js_fmod a b = a - b * of_int (js_trunc (a / b))"

section \<open>SeededRandom (src/core/visualGeneratorNode.js)\<close>

record SeededRandom =
  rngSeed :: nat
  current :: nat

definition newSeededRandom :: "nat \<Rightarrow> SeededRandom" where
  "newSeededRandom s = \<lparr>rngSeed = s, current = s\<rparr>"

text \<open>
  \<open>random()\<close> steps \<open>current\<close> and returns \<open>current / 4294967296\<close>; the model returns
  the drawn number together with the updated generator.
\<close>

definition rng_random :: "SeededRandom \<Rightarrow> real \<times> SeededRandom" where
  "rng_random g =
     (let c = (current g * 1664525 + 1013904223) mod 4294967296
      in (real c / 4294967296, g\<lparr>current := c\<rparr>))"

text \<open>\<open>n\<close> successive calls of \<open>random()\<close>, in order.\<close>

fun draws :: "nat \<Rightarrow> SeededRandom \<Rightarrow> real list" where
  "draws 0 g = []"
| "draws (Suc n) g = (let (r, g') = rng_random g in r # draws n g')"

section \<open>ContentAnalyzer (src/core/contentAnalyzer.js)\<close>

text \<open>A string literal, as its code units.\<close>

definition js :: "string \<Rightarrow> jsstring" where
  "js s = map of_char s"

text \<open>
  The class \<open>\s\<close> of a regular expression, which is also what \<open>trim()\<close> removes: white
  space and line terminators.
\<close>

definition isSpace :: "nat \<Rightarrow> bool" where
  "isSpace c =
     (c \<in> set [9, 10, 11, 12, 13, 32, 160, 5760, 8232, 8233, 8239, 8287, 12288, 65279]
      \<or> (8192 \<le> c \<and> c \<le> 8202))"

text \<open>The class \<open>\w\<close>: ASCII letters, digits and the underscore.\<close>

definition isWordChar :: "nat \<Rightarrow> bool" where
  "isWordChar c =
     ((48 \<le> c \<and> c \<le> 57) \<or> (65 \<le> c \<and> c \<le> 90) \<or> c = 95 \<or> (97 \<le> c \<and> c \<le> 122))"

text \<open>
  \<open>text.replace(/<[^>]*>/g, ' ')\<close>: a \<open><\<close> (60) matches up to the first \<open>>\<close> (62)
  after it; without a later \<open>>\<close> there is no match at that position.
\<close>

function stripTags :: "jsstring \<Rightarrow> jsstring" where
  "stripTags [] = []"
| "stripTags (c # cs) =
     (if c = 60 \<and> 62 \<in> set cs
      then 32 # stripTags (tl (dropWhile (\<lambda>d. d \<noteq> 62) cs))
      else c # stripTags cs)"
  by pat_completeness auto
termination
proof (relation "measure length")
  show "wf (measure length)" by simp
next
  fix c :: nat and cs :: jsstring
  have "length (dropWhile (\<lambda>d. d \<noteq> 62) cs) \<le> length cs"
    by (rule length_dropWhile_le)
  then show "(tl (dropWhile (\<lambda>d. d \<noteq> 62) cs), c # cs) \<in> measure length"
    by simp
next
  fix c :: nat and cs :: jsstring
  show "(cs, c # cs) \<in> measure length" by simp
qed

text \<open>\<open>s.replace(/pat/g, rep)\<close> for a literal, non-empty pattern.\<close>

function replaceAll :: "jsstring \<Rightarrow> jsstring \<Rightarrow> jsstring \<Rightarrow> jsstring" where
  "replaceAll pat rep [] = []"
| "replaceAll pat rep (c # cs) =
     (if pat \<noteq> [] \<and> take (length pat) (c # cs) = pat
      then rep @ replaceAll pat rep (drop (length pat) (c # cs))
      else c # replaceAll pat rep cs)"
  by pat_completeness auto
termination
  by (relation "measure (\<lambda>(pat, rep, s). length s)") auto

text \<open>\<open>s.replace(/\s+/g, ' ')\<close>: every maximal run of white space becomes one space.\<close>

function collapseWs :: "jsstring \<Rightarrow> jsstring" where
  "collapseWs [] = []"
| "collapseWs (c # cs) =
     (if isSpace c then 32 # collapseWs (dropWhile isSpace cs) else c # collapseWs cs)"
  by pat_completeness auto
termination
proof (relation "measure length")
  show "wf (measure length)" by simp
next
  fix c :: nat and cs :: jsstring
  have "length (dropWhile isSpace cs) \<le> length cs"
    by (rule length_dropWhile_le)
  then show "(dropWhile isSpace cs, c # cs) \<in> measure length"
    by simp
next
  fix c :: nat and cs :: jsstring
  show "(cs, c # cs) \<in> measure length" by simp
qed

definition trim :: "jsstring \<Rightarrow> jsstring" where
  "trim s = rev (dropWhile isSpace (rev (dropWhile isSpace s)))"

definition cleanText :: "jsstring \<Rightarrow> jsstring" where
  "cleanText text =
     (let cleaned = stripTags text;
          cleaned = replaceAll (js ''&nbsp;'') (js '' '') cleaned;
          cleaned = replaceAll (js ''&amp;'') (js ''&'') cleaned;
          cleaned = replaceAll (js ''&lt;'') (js ''<'') cleaned;
          cleaned = replaceAll (js ''&gt;'') (js ''>'') cleaned;
          cleaned = replaceAll (js ''&quot;'') [34] cleaned;
          cleaned = replaceAll (js ''&#39;'') [39] cleaned
      in trim (collapseWs cleaned))"

text \<open>
  The analyzer object: the constructor keeps the raw content and its cleaned form.
\<close>

record ContentAnalyzer =
  rawContent :: jsstring
  cleanContent :: jsstring

definition newContentAnalyzer :: "jsstring \<Rightarrow> ContentAnalyzer" where
  "newContentAnalyzer content = \<lparr>rawContent = content, cleanContent = cleanText content\<rparr>"

text \<open>
  \<open>toLowerCase()\<close>, one code unit at a time. \<open>A\<close>-\<open>Z\<close> go to \<open>a\<close>-\<open>z\<close>; the two units
  outside ASCII whose lower case contains an ASCII letter are U+0130 (to \<open>i\<close> and U+0307)
  and U+212A (to \<open>k\<close>). Every other unit is left as it is: its lower case is again
  neither a word character nor white space, so the word list below is the same.
\<close>

definition lowerUnit :: "nat \<Rightarrow> jsstring" where
  "lowerUnit c =
     (if 65 \<le> c \<and> c \<le> 90 then [c + 32]
      else if c = 304 then [105, 775]
      else if c = 8490 then [107]
      else [c])"

definition toLowerCase :: "jsstring \<Rightarrow> jsstring" where
  "toLowerCase s = concat (map lowerUnit s)"

text \<open>
  \<open>s.split(/\s+/)\<close>. The first argument is the piece read so far, reversed. The
  expression never matches the empty string, so the empty string splits into one empty
  piece, and a separator at either end leaves an empty piece there.
\<close>

function splitWs :: "jsstring \<Rightarrow> jsstring \<Rightarrow> jsstring list" where
  "splitWs cur [] = [rev cur]"
| "splitWs cur (c # cs) =
     (if isSpace c then rev cur # splitWs [] (dropWhile isSpace cs)
      else splitWs (c # cur) cs)"
  by pat_completeness auto
termination
proof (relation "measure (\<lambda>(cur, s). length s)")
  show "wf (measure (\<lambda>(cur :: jsstring, s :: jsstring). length s))" by simp
next
  fix cur :: jsstring and c :: nat and cs :: jsstring
  have "length (dropWhile isSpace cs) \<le> length cs"
    by (rule length_dropWhile_le)
  then show "(([], dropWhile isSpace cs), (cur, c # cs)) \<in> measure (\<lambda>(cur, s). length s)"
    by simp
next
  fix cur :: jsstring and c :: nat and cs :: jsstring
  show "((c # cur, cs), (cur, c # cs)) \<in> measure (\<lambda>(cur, s). length s)" by simp
qed

definition getWords :: "ContentAnalyzer \<Rightarrow> jsstring list" where
  "getWords a =
     filter (\<lambda>word. length word > 0)
       (map (\<lambda>word. filter isWordChar word)
          (filter (\<lambda>word. length word > 0)
             (splitWs [] (toLowerCase (cleanContent a)))))"

text \<open>
  \<open>rawContent.match(/<p[^>]*>/gi)\<close>: the matches from left to right (\<open>null\<close> when there
  is none, the empty list here). A match starts at \<open><\<close> followed by \<open>p\<close> or \<open>P\<close> and
  ends at the first \<open>>\<close> after these two.
\<close>

function matchPTags :: "jsstring \<Rightarrow> jsstring list" where
  "matchPTags [] = []"
| "matchPTags (c # cs) =
     (if c = 60 \<and> cs \<noteq> [] \<and> (hd cs = 112 \<or> hd cs = 80) \<and> 62 \<in> set (tl cs)
      then (c # hd cs # takeWhile (\<lambda>d. d \<noteq> 62) (tl cs) @ [62])
             # matchPTags (tl (dropWhile (\<lambda>d. d \<noteq> 62) (tl cs)))
      else matchPTags cs)"
  by pat_completeness auto
termination
proof (relation "measure length")
  show "wf (measure length)" by simp
next
  fix c :: nat and cs :: jsstring
  have "length (dropWhile (\<lambda>d. d \<noteq> 62) (tl cs)) \<le> length (tl cs)"
    by (rule length_dropWhile_le)
  then show "(tl (dropWhile (\<lambda>d. d \<noteq> 62) (tl cs)), c # cs) \<in> measure length"
    by simp
next
  fix c :: nat and cs :: jsstring
  show "(cs, c # cs) \<in> measure length" by simp
qed

text \<open>
  The separator \<open>/\n\s*\n|\r\n\s*\r\n/\<close> tried at the head of a string: the length of the
  match, if any. \<open>\s*\<close> is greedy and backtracks, so the match ends at the last \<open>\n\<close>
  (the last \<open>\r\n\<close>) inside the run of white space that follows the opening \<open>\n\<close>
  (\<open>\r\n\<close>). \<open>lastNl\<close> and \<open>lastCrNl\<close> give the index of that last occurrence in the run.
\<close>

fun lastNl :: "jsstring \<Rightarrow> nat \<Rightarrow> nat option \<Rightarrow> nat option" where
  "lastNl [] i best = best"
| "lastNl (c # cs) i best = lastNl cs (Suc i) (if c = 10 then Some i else best)"

fun lastCrNl :: "jsstring \<Rightarrow> nat \<Rightarrow> nat option \<Rightarrow> nat option" where
  "lastCrNl (c # d # cs) i best =
     lastCrNl (d # cs) (Suc i) (if c = 13 \<and> d = 10 then Some i else best)"
| "lastCrNl cs i best = best"

definition sepMatch :: "jsstring \<Rightarrow> nat option" where
  "sepMatch s =
     (if take 1 s = [10] then
        (case lastNl (takeWhile isSpace (drop 1 s)) 0 None of
           Some k \<Rightarrow> Some (k + 2) | None \<Rightarrow> None)
      else if take 2 s = [13, 10] then
        (case lastCrNl (takeWhile isSpace (drop 2 s)) 0 None of
           Some k \<Rightarrow> Some (k + 4) | None \<Rightarrow> None)
      else None)"

text \<open>
  \<open>rawContent.split(/\n\s*\n|\r\n\s*\r\n/)\<close>: at each position the separator is tried; a
  match closes the current piece and the scan goes on after it.
\<close>

function splitParagraphs :: "jsstring \<Rightarrow> jsstring \<Rightarrow> jsstring list" where
  "splitParagraphs cur [] = [rev cur]"
| "splitParagraphs cur (c # cs) =
     (case sepMatch (c # cs) of
        Some n \<Rightarrow>
          (if 0 < n then rev cur # splitParagraphs [] (drop n (c # cs))
           else splitParagraphs (c # cur) cs)
      | None \<Rightarrow> splitParagraphs (c # cur) cs)"
  by pat_completeness auto
termination
  by (relation "measure (\<lambda>(cur, s). length s)") auto

definition getParagraphCount :: "ContentAnalyzer \<Rightarrow> nat" where
  "getParagraphCount a =
     (let htmlParagraphs = matchPTags (rawContent a)
      in if htmlParagraphs \<noteq> [] \<and> length htmlParagraphs > 0 then length htmlParagraphs
         else
           (let paragraphs =
                  filter (\<lambda>para. length (trim para) > 0) (splitParagraphs [] (rawContent a))
            in max (length paragraphs) 1))"

text \<open>
  \<open>getHash()\<close> and \<open>SeedGenerator.hashContent\<close>: \<open>hash = ((hash << 5) - hash) + char\<close>,
  then \<open>hash = hash & hash\<close>, for each code unit from left to right; \<open>Math.abs\<close> at the end.
\<close>

definition hashStep :: "int \<Rightarrow> nat \<Rightarrow> int" where
  "hashStep hash char = (let hash = (js_shl hash 5 - hash) + int char in js_and hash hash)"

definition getHash :: "ContentAnalyzer \<Rightarrow> int" where
  "getHash a = \<bar>foldl hashStep 0 (cleanContent a)\<bar>"

text \<open>The metrics object that \<open>analyze()\<close> returns.\<close>

record ContentMetrics =
  characters :: nat
  wordCount :: nat
  avgWordLength :: real
  readingTime :: int
  paragraphCount :: nat
  words :: "jsstring list"
  metricsCleanContent :: jsstring

text \<open>\<open>Math.round\<close> rounds to the nearest integer, a half upwards.\<close>

definition js_round :: "real \<Rightarrow> int" where
  "js_round r = \<lfloor>r + 1 / 2\<rfloor>"

definition analyze :: "ContentAnalyzer \<Rightarrow> ContentMetrics" where
  "analyze a =
     (let ws = getWords a;
          chars = length (cleanContent a);
          wc = length ws;
          avg = (if wc > 0 then real (foldl (\<lambda>sum word. sum + length word) 0 ws) / real wc else 0);
          rt = \<lceil>real wc / 200\<rceil>;
          pc = getParagraphCount a
      in \<lparr>characters = chars, wordCount = wc,
          avgWordLength = real_of_int (js_round (avg * 10)) / 10,
          readingTime = rt, paragraphCount = pc, words = ws,
          metricsCleanContent = cleanContent a\<rparr>)"

section \<open>SeedGenerator (src/seedGenerator.js)\<close>

text \<open>
  The visual parameters. \<open>generateVisualParams\<close> leaves \<open>minStroke\<close> and \<open>maxStroke\<close>
  undefined (\<open>None\<close>); the callers set them afterwards.
\<close>

record VisualParams =
  seed :: int
  density :: real
  complexity :: real
  smoothness :: real
  layers :: real
  shapeVertices :: nat
  paletteIndex :: int
  minStroke :: "real option"
  maxStroke :: "real option"

definition generateSeed :: "ContentMetrics \<Rightarrow> int" where
  "generateSeed m =
     (let seed = real (wordCount m * 137) + real (characters m * 31) + avgWordLength m * 17
      in \<bar>\<lfloor>seed\<rfloor>\<bar>)"

definition hashContent :: "jsstring \<Rightarrow> int" where
  "hashContent str = \<bar>foldl hashStep 0 str\<bar>"

definition generateVisualParams :: "ContentMetrics \<Rightarrow> VisualParams" where
  "generateVisualParams m =
     (let contentHash = hashContent (metricsCleanContent m)
      in \<lparr>seed = generateSeed m,
          density = min (real (wordCount m) / 1000) 1,
          complexity = min (real (characters m) / 5000) 1,
          smoothness = min (avgWordLength m / 10) 1,
          layers = min (real_of_int (readingTime m)) 10,
          shapeVertices = min (max (paragraphCount m) 3) 20,
          paletteIndex = js_rem contentHash 10,
          minStroke = None,
          maxStroke = None\<rparr>)"

section \<open>VisualGeneratorNode (src/core/visualGeneratorNode.js)\<close>

record Palette =
  bg :: "string list"
  accents :: "string list"

definition initColorPalettes :: "Palette list" where
  "initColorPalettes =
     [\<lparr>bg = [''#FF6B6B'', ''#FFE66D''], accents = [''#4ECDC4'', ''#FF6B9D'', ''#C44569'']\<rparr>,
      \<lparr>bg = [''#667eea'', ''#764ba2''], accents = [''#f093fb'', ''#4facfe'', ''#43e97b'']\<rparr>,
      \<lparr>bg = [''#134E5E'', ''#71B280''], accents = [''#A8E6CF'', ''#DCEDC1'', ''#FFD3B6'']\<rparr>,
      \<lparr>bg = [''#A770EF'', ''#CF8BF3''], accents = [''#FDB99B'', ''#E8D5B7'', ''#B8E1DD'']\<rparr>,
      \<lparr>bg = [''#0F2027'', ''#203A43'', ''#2C5364''],
       accents = [''#F857A6'', ''#FF5858'', ''#FFC371'']\<rparr>,
      \<lparr>bg = [''#FFA07A'', ''#FF6B9D''], accents = [''#C44569'', ''#8B4367'', ''#1F4068'']\<rparr>,
      \<lparr>bg = [''#56CCF2'', ''#2F80ED''], accents = [''#6FCF97'', ''#F2C94C'', ''#EB5757'']\<rparr>,
      \<lparr>bg = [''#D4A5A5'', ''#9A86A4''], accents = [''#6C9A8B'', ''#E9B384'', ''#F4F2DE'']\<rparr>,
      \<lparr>bg = [''#FF9A8B'', ''#FF6A88''], accents = [''#FF99AC'', ''#FFEAA7'', ''#74B9FF'']\<rparr>,
      \<lparr>bg = [''#00B4DB'', ''#0083B0''], accents = [''#74EBD5'', ''#ACB6E5'', ''#86A8E7'']\<rparr>]"

text \<open>Reading an array at an index: \<open>undefined\<close> (\<open>None\<close>) outside the array.\<close>

definition js_nth :: "'a list \<Rightarrow> int \<Rightarrow> 'a option" where
  "js_nth xs i = (if 0 \<le> i \<and> i < int (length xs) then Some (xs ! nat i) else None)"

text \<open>\<open>this.colorPalettes[this.params.paletteIndex]\<close> in \<open>generate()\<close>.\<close>

definition paletteAt :: "int \<Rightarrow> Palette option" where
  "paletteAt i = js_nth initColorPalettes i"

text \<open>
  What the renderer sends to the canvas, in order: a filled shape with its fill style and
  the arguments of the drawing method, or a flowing curve with its stroke style, line
  width and the arguments of \<open>drawFlowingCurve\<close>.
\<close>

datatype shape =
    DrawCircle real real real
  | DrawStar real real real nat
  | DrawRectangle real real real nat
  | DrawRegularPolygon real real real nat
  | DrawOrganicBlob real real real nat real nat

datatype canvasOp =
    Fill "string option" shape
  | StrokeCurve "string option" real real nat

datatype shapeKind = Circle | Star | Rectangle | RegularPolygon | OrganicBlob

fun kindOf :: "shape \<Rightarrow> shapeKind" where
  "kindOf (DrawCircle x y r) = Circle"
| "kindOf (DrawStar x y r n) = Star"
| "kindOf (DrawRectangle x y s off) = Rectangle"
| "kindOf (DrawRegularPolygon x y r n) = RegularPolygon"
| "kindOf (DrawOrganicBlob x y r n sc off) = OrganicBlob"

text \<open>\<open>a || b\<close> on an optional number: \<open>undefined\<close> and 0 are falsy.\<close>

definition orDefault :: "real option \<Rightarrow> real \<Rightarrow> real" where
  "orDefault a b = (case a of None \<Rightarrow> b | Some v \<Rightarrow> if v = 0 then b else v)"

definition numLayers :: "VisualParams \<Rightarrow> int" where
  "numLayers p = max 3 \<lfloor>layers p\<rfloor>"

definition numFlows :: "VisualParams \<Rightarrow> int" where
  "numFlows p = \<lfloor>5 + density p * 10\<rfloor>"

definition noiseScaleOf :: "VisualParams \<Rightarrow> real" where
  "noiseScaleOf p = 0.005 / (smoothness p + 0.1)"

definition shapeVerticesOf :: "VisualParams \<Rightarrow> nat" where
  "shapeVerticesOf p = (if shapeVertices p = 0 then 8 else shapeVertices p)"

text \<open>\<open>(offset * 37 + this.params.smoothness * 100) % 100\<close>\<close>

definition shapeSelector :: "nat \<Rightarrow> real \<Rightarrow> real" where
  "shapeSelector offset sm = js_fmod (real offset * 37 + sm * 100) 100"

text \<open>The chain of comparisons that picks the drawing method.\<close>

definition selectShape ::
  "real \<Rightarrow> real \<Rightarrow> real \<Rightarrow> real \<Rightarrow> nat \<Rightarrow> real \<Rightarrow> nat \<Rightarrow> shape" where
  "selectShape sel x y sz sv noiseScale offset =
     (if sel < 20 then DrawCircle x y sz
      else if sel < 35 then DrawStar x y sz sv
      else if sel < 50 then DrawRectangle x y sz offset
      else if sel < 70 then DrawRegularPolygon x y sz sv
      else DrawOrganicBlob x y sz sv noiseScale offset)"

text \<open>
  The body of the inner loop of \<open>drawOrganicFlows\<close>, for one \<open>flow\<close> of one \<open>layer\<close>: three
  draws from the generator, then the shape picked from \<open>offset\<close> and \<open>smoothness\<close>.
\<close>

definition drawFlow ::
  "VisualParams \<Rightarrow> real \<Rightarrow> real \<Rightarrow> string list \<Rightarrow> nat \<Rightarrow> nat \<Rightarrow> SeededRandom
     \<Rightarrow> canvasOp \<times> SeededRandom" where
  "drawFlow p w h accentColors layer flow g =
     (let color = js_nth accentColors (js_rem (int flow) (int (length accentColors)));
          (r1, g1) = rng_random g;
          x = r1 * w;
          (r2, g2) = rng_random g1;
          y = r2 * h;
          (r3, g3) = rng_random g2;
          sz = 50 + r3 * (150 * complexity p);
          offset = flow + layer * 100;
          sel = shapeSelector offset (smoothness p)
      in (Fill color (selectShape sel x y sz (shapeVerticesOf p) (noiseScaleOf p) offset), g3))"

function flowLoop ::
  "VisualParams \<Rightarrow> real \<Rightarrow> real \<Rightarrow> string list \<Rightarrow> nat \<Rightarrow> nat \<Rightarrow> SeededRandom
     \<Rightarrow> canvasOp list \<times> SeededRandom" where
  "flowLoop p w h accentColors layer flow g =
     (if int flow < numFlows p then
        (let (c, g') = drawFlow p w h accentColors layer flow g;
             (cs, g'') = flowLoop p w h accentColors layer (Suc flow) g'
         in (c # cs, g''))
      else ([], g))"
  by pat_completeness auto
termination
  by (relation "measure (\<lambda>(p, w, h, ac, layer, flow, g). nat (numFlows p - int flow))") auto

text \<open>
  The three flowing curves of a layer: stroke style, then
  \<open>lineWidth = minStroke + complexity * (maxStroke - minStroke)\<close> with
  \<open>minStroke = params.minStroke || 0.5\<close> and \<open>maxStroke = params.maxStroke || 1.5\<close>.
\<close>

definition drawCurve :: "VisualParams \<Rightarrow> string list \<Rightarrow> nat \<Rightarrow> nat \<Rightarrow> canvasOp" where
  "drawCurve p accentColors layer i =
     (let color = js_nth accentColors (js_rem (int i) (int (length accentColors)));
          minS = orDefault (minStroke p) 0.5;
          maxS = orDefault (maxStroke p) 1.5;
          lineWidth = minS + complexity p * (maxS - minS)
      in StrokeCurve color lineWidth (noiseScaleOf p) (i + layer * 10))"

function curveLoop :: "VisualParams \<Rightarrow> string list \<Rightarrow> nat \<Rightarrow> nat \<Rightarrow> canvasOp list" where
  "curveLoop p accentColors layer i =
     (if i < 3 then drawCurve p accentColors layer i # curveLoop p accentColors layer (Suc i)
      else [])"
  by pat_completeness auto
termination
  by (relation "measure (\<lambda>(p, ac, layer, i). 3 - i)") auto

function layerLoop ::
  "VisualParams \<Rightarrow> real \<Rightarrow> real \<Rightarrow> string list \<Rightarrow> nat \<Rightarrow> SeededRandom
     \<Rightarrow> canvasOp list \<times> SeededRandom" where
  "layerLoop p w h accentColors layer g =
     (if int layer < numLayers p then
        (let (fs, g') = flowLoop p w h accentColors layer 0 g;
             cs = curveLoop p accentColors layer 0;
             (rest, g'') = layerLoop p w h accentColors (Suc layer) g'
         in (fs @ cs @ rest, g''))
      else ([], g))"
  by pat_completeness auto
termination
  by (relation "measure (\<lambda>(p, w, h, ac, layer, g). nat (numLayers p - int layer))") auto

definition drawOrganicFlows ::
  "VisualParams \<Rightarrow> real \<Rightarrow> real \<Rightarrow> string list \<Rightarrow> SeededRandom
     \<Rightarrow> canvasOp list \<times> SeededRandom" where
  "drawOrganicFlows p w h accentColors g = layerLoop p w h accentColors 0 g"

text \<open>The kind of shape a canvas operation fills, and the kind picked for a selector value.\<close>

fun flowKind :: "canvasOp \<Rightarrow> shapeKind option" where
  "flowKind (Fill c s) = Some (kindOf s)"
| "flowKind (StrokeCurve c lw sc off) = None"

definition selectKind :: "real \<Rightarrow> shapeKind" where
  "selectKind sel = kindOf (selectShape sel 0 0 0 0 0 0)"

section \<open>VisualGenerator, the browser renderer on p5.js\<close>

text \<open>
  The curve loop of the browser's \<open>drawOrganicFlows\<close>:
  \<open>p.stroke(color + p.hex(20, 2))\<close>, then \<open>p.strokeWeight(2 + this.params.complexity * 3)\<close>.
  The repository holds a second copy of this class, which strokes with the plain colour
  and sets the same stroke weight.
\<close>

definition drawCurveBrowser :: "VisualParams \<Rightarrow> string list \<Rightarrow> nat \<Rightarrow> nat \<Rightarrow> canvasOp" where
  "drawCurveBrowser p accentColors layer i =
     (let color = js_nth accentColors (js_rem (int i) (int (length accentColors)));
          strokeWeight = 2 + complexity p * 3
      in StrokeCurve
           (Some ((case color of None \<Rightarrow> ''undefined'' | Some c \<Rightarrow> c) @ ''14''))
           strokeWeight (noiseScaleOf p) (i + layer * 10))"

function curveLoopBrowser :: "VisualParams \<Rightarrow> string list \<Rightarrow> nat \<Rightarrow> nat \<Rightarrow> canvasOp list" where
  "curveLoopBrowser p accentColors layer i =
     (if i < 3
      then drawCurveBrowser p accentColors layer i # curveLoopBrowser p accentColors layer (Suc i)
      else [])"
  by pat_completeness auto
termination
  by (relation "measure (\<lambda>(p, ac, layer, i). 3 - i)") auto

text \<open>The line width of a stroked curve.\<close>

fun strokeWidth :: "canvasOp \<Rightarrow> real option" where
  "strokeWidth (StrokeCurve c lw sc off) = Some lw"
| "strokeWidth (Fill c s) = None"

section \<open>PerlinNoise (src/core/visualGeneratorNode.js)\<close>

record PerlinNoise =
  noiseSeed :: nat
  permutation :: "nat list"

text \<open>
  The Fisher-Yates loop of \<open>generatePermutation\<close>, \<open>i\<close> running from 255 down to 1:
  \<open>j = Math.floor(rng.random() * (i + 1))\<close>, then \<open>p[i]\<close> and \<open>p[j]\<close> are swapped.
\<close>

fun shuffleLoop :: "nat \<Rightarrow> nat list \<Rightarrow> SeededRandom \<Rightarrow> nat list" where
  "shuffleLoop 0 p rng = p"
| "shuffleLoop (Suc k) p rng =
     (let i = Suc k;
          (r, rng') = rng_random rng;
          j = nat \<lfloor>r * real (i + 1)\<rfloor>
      in shuffleLoop k (p[i := p ! j, j := p ! i]) rng')"

definition generatePermutation :: "nat \<Rightarrow> nat list" where
  "generatePermutation s =
     (let p = [0 ..< 256];
          rng = newSeededRandom s;
          p = shuffleLoop 255 p rng
      in p @ p)"

definition newPerlinNoise :: "nat \<Rightarrow> PerlinNoise" where
  "newPerlinNoise s = \<lparr>noiseSeed = s, permutation = generatePermutation s\<rparr>"

definition fade :: "real \<Rightarrow> real" where
  "fade t = t * t * t * (t * (t * 6 - 15) + 10)"

definition lerp :: "real \<Rightarrow> real \<Rightarrow> real \<Rightarrow> real" where
  "lerp a b t = a + t * (b - a)"

text \<open>
  \<open>grad(hash, x, y)\<close>. The hash is an entry of the table, or \<open>undefined\<close> (\<open>None\<close>) when
  the table was read outside its range; \<open>undefined & 3\<close> is 0.
\<close>

definition grad :: "nat option \<Rightarrow> real \<Rightarrow> real \<Rightarrow> real" where
  "grad hash x y =
     (let h = js_and (case hash of None \<Rightarrow> 0 | Some k \<Rightarrow> int k) 3;
          u = (if h < 2 then x else y);
          v = (if h < 2 then y else x)
      in (if js_and h 1 = 0 then u else - u) + (if js_and h 2 = 0 then v else - v))"

text \<open>\<open>this.permutation[this.permutation[a] + b]\<close>\<close>

definition perm2 :: "PerlinNoise \<Rightarrow> int \<Rightarrow> int \<Rightarrow> nat option" where
  "perm2 n a b =
     (case js_nth (permutation n) a of
        None \<Rightarrow> None
      | Some k \<Rightarrow> js_nth (permutation n) (int k + b))"

definition get :: "PerlinNoise \<Rightarrow> real \<Rightarrow> real \<Rightarrow> real" where
  "get n x0 y0 =
     (let X = js_and \<lfloor>x0\<rfloor> 255;
          Y = js_and \<lfloor>y0\<rfloor> 255;
          x = x0 - of_int \<lfloor>x0\<rfloor>;
          y = y0 - of_int \<lfloor>y0\<rfloor>;
          u = fade x;
          v = fade y;
          aa = perm2 n X Y;
          ab = perm2 n X (Y + 1);
          ba = perm2 n (X + 1) Y;
          bb = perm2 n (X + 1) (Y + 1);
          res = lerp (lerp (grad aa x y) (grad ba (x - 1) y) u)
                     (lerp (grad ab x (y - 1)) (grad bb (x - 1) (y - 1)) u) v
      in (res + 1) / 2)"

section \<open>Cropping the master image (ImageGenerator.applyCropMode, App.createCroppedCanvas)\<close>

text \<open>
  A canvas is its size and its pixels, row by row as in \<open>ImageData\<close>: the pixel at
  \<open>(x, y)\<close> is entry \<open>y * width + x\<close>. A pixel is red, green, blue and alpha, each from 0 to
  255. The canvas itself belongs to the platform (node-canvas, the browser); what is
  modelled of it follows the HTML canvas standard: a new canvas is transparent black, and
  \<open>drawImage\<close> with equal source and destination sizes copies the source rectangle,
  clipped to the image, onto the destination with source-over compositing.
\<close>

datatype pixel = RGBA real real real real

record Canvas =
  width :: nat
  height :: nat
  data :: "pixel list"

definition createCanvas :: "nat \<Rightarrow> nat \<Rightarrow> Canvas" where
  "createCanvas w h = \<lparr>width = w, height = h, data = replicate (w * h) (RGBA 0 0 0 0)\<rparr>"

fun alpha :: "pixel \<Rightarrow> real" where
  "alpha (RGBA r g b a) = a"

fun sourceOver :: "pixel \<Rightarrow> pixel \<Rightarrow> pixel" where
  "sourceOver (RGBA sr sg sb sa) (RGBA dr dg db da) =
     (let a = sa / 255;
          b = da / 255;
          ao = a + b * (1 - a)
      in if ao = 0 then RGBA 0 0 0 0
         else RGBA ((sr * a + dr * b * (1 - a)) / ao)
                   ((sg * a + dg * b * (1 - a)) / ao)
                   ((sb * a + db * b * (1 - a)) / ao)
                   (ao * 255))"

definition getPixel :: "Canvas \<Rightarrow> nat \<Rightarrow> nat \<Rightarrow> pixel option" where
  "getPixel c x y =
     (if x < width c \<and> y < height c \<and> y * width c + x < length (data c)
      then Some (data c ! (y * width c + x)) else None)"

text \<open>
  \<open>ctx.drawImage(img, sx, sy, w, h, dx, dy, w, h)\<close> on the canvas \<open>dst\<close>.
\<close>

definition drawImage ::
  "Canvas \<Rightarrow> Canvas \<Rightarrow> nat \<Rightarrow> nat \<Rightarrow> nat \<Rightarrow> nat \<Rightarrow> nat \<Rightarrow> nat \<Rightarrow> Canvas" where
  "drawImage dst img sx sy w h dx dy =
     dst\<lparr>data :=
       map (\<lambda>k.
              (let x = k mod width dst;
                   y = k div width dst
               in if dx \<le> x \<and> x < dx + w \<and> dy \<le> y \<and> y < dy + h then
                    (case getPixel img (sx + (x - dx)) (sy + (y - dy)) of
                       Some s \<Rightarrow> sourceOver s (data dst ! k)
                     | None \<Rightarrow> data dst ! k)
                  else data dst ! k))
           [0 ..< length (data dst)]\<rparr>"

text \<open>
  \<open>applyCropMode\<close> (and \<open>createCroppedCanvas\<close> of the web application, which makes the same
  two calls). The resize branch scales the image with the platform's resampling, which is
  not part of the repository: it is the parameter \<open>resizeAndCrop\<close>.
\<close>

definition applyCropMode ::
  "(Canvas \<Rightarrow> Canvas \<Rightarrow> nat \<Rightarrow> nat \<Rightarrow> Canvas) \<Rightarrow> string \<Rightarrow> Canvas \<Rightarrow> nat \<Rightarrow> nat \<Rightarrow> Canvas" where
  "applyCropMode resizeAndCrop cropMode sourceCanvas targetWidth targetHeight =
     (let canvas = createCanvas targetWidth targetHeight
      in if cropMode = ''resize''
         then resizeAndCrop canvas sourceCanvas targetWidth targetHeight
         else drawImage canvas sourceCanvas 0 0 targetWidth targetHeight 0 0)"

text \<open>The master size of \<open>generateFormat\<close> and the formats of \<open>getFormats\<close>.\<close>

definition masterSize :: nat where
  "masterSize = 1200"

definition formatMap :: "string \<Rightarrow> (nat \<times> nat) option" where
  "formatMap name =
     (if name = ''landscape'' then Some (1200, 628)
      else if name = ''square'' then Some (1200, 1200)
      else None)"

section \<open>The content hash in the specification's words\<close>

text \<open>
  The specification's rolling hash: \<open>hash = (hash * 31 + charCode) mod 2^32\<close>,
  accumulated from left to right; then the absolute value. These two definitions follow
  the specification, for comparison with \<open>getHash\<close> and \<open>hashContent\<close> above.
\<close>

definition rollingHash :: "jsstring \<Rightarrow> int" where
  "rollingHash s = foldl (\<lambda>hash c. (hash * 31 + int c) mod 2 ^ 32) 0 s"

definition spec_contentHash :: "jsstring \<Rightarrow> int" where
  "spec_contentHash s = \<bar>rollingHash s\<bar>"

section \<open>The generator's stream\<close>

lemma rng_random_current:
  "current (snd (rng_random g)) = (current g * 1664525 + 1013904223) mod 2 ^ 32"
  by (simp add: rng_random_def Let_def)

lemma rng_random_value:
  "fst (rng_random g) = real (current (snd (rng_random g))) / 2 ^ 32"
  by (simp add: rng_random_def Let_def)

lemma rng_random_range: "0 \<le> fst (rng_random g) \<and> fst (rng_random g) < 1"
proof -
  have "(current g * 1664525 + 1013904223) mod 4294967296 < (4294967296 :: nat)"
    by simp
  then have "real ((current g * 1664525 + 1013904223) mod 4294967296) < 4294967296"
    by (metis of_nat_less_iff of_nat_numeral)
  then show ?thesis
    by (simp add: rng_random_def Let_def)
qed

lemma draws_range: "r \<in> set (draws n g) \<Longrightarrow> 0 \<le> r \<and> r < 1"
proof (induction n arbitrary: g)
  case 0
  then show ?case by simp
next
  case (Suc n)
  obtain r0 g' where step: "rng_random g = (r0, g')"
    by (cases "rng_random g")
  with Suc.prems have "r = r0 \<or> r \<in> set (draws n g')"
    by simp
  moreover have "0 \<le> r0 \<and> r0 < 1"
    using rng_random_range [of g] step by simp
  ultimately show ?case
    using Suc.IH by blast
qed

text \<open>
  C1, as stated: the first draw of the generator seeded with 42 is \<open>1013904223 / 2^32\<close>.
  The code steps the state to \<open>(42 * 1664525 + 1013904223) mod 2^32 = 1083814273\<close>, so
  the first draw is \<open>1083814273 / 2^32\<close>; \<open>1013904223 / 2^32\<close> is the first draw for seed 0.
\<close>

theorem C1_first_draw_counterexample:
  "fst (rng_random (newSeededRandom 42)) \<noteq> 1013904223 / 2 ^ 32"
  by (simp add: rng_random_def newSeededRandom_def Let_def)

text \<open>
  C1, amended: the first draw for seed 42 is \<open>1083814273 / 2^32\<close>, the state being
  stepped once as \<open>(42 * 1664525 + 1013904223) mod 2^32\<close>; for every generator state each
  call sets \<open>current\<close> to \<open>(current * 1664525 + 1013904223) mod 2^32\<close> and returns
  \<open>current / 2^32\<close>, a real in \<open>[0, 1)\<close>; started below \<open>2^32\<close> the intermediate value
  stays under \<open>2^53\<close> (exact in a double); and every draw of the stream lies in \<open>[0, 1)\<close>.
\<close>

theorem C1_lcg_step:
  "fst (rng_random (newSeededRandom 42)) = 1083814273 / 2 ^ 32
   \<and> current (snd (rng_random (newSeededRandom 42))) = (42 * 1664525 + 1013904223) mod 2 ^ 32
   \<and> current (snd (rng_random g)) = (current g * 1664525 + 1013904223) mod 2 ^ 32
   \<and> fst (rng_random g) = real (current (snd (rng_random g))) / 2 ^ 32
   \<and> 0 \<le> fst (rng_random g) \<and> fst (rng_random g) < 1
   \<and> current (snd (rng_random g)) < 2 ^ 32
   \<and> (current g < 2 ^ 32 \<longrightarrow> current g * 1664525 + 1013904223 < 2 ^ 53)
   \<and> (\<forall>r \<in> set (draws n (newSeededRandom s)). 0 \<le> r \<and> r < 1)"
proof -
  have a: "fst (rng_random (newSeededRandom 42)) = 1083814273 / 2 ^ 32"
    by (simp add: rng_random_def newSeededRandom_def Let_def)
  have b: "current (snd (rng_random (newSeededRandom 42))) = (42 * 1664525 + 1013904223) mod 2 ^ 32"
    by (simp add: rng_random_def newSeededRandom_def Let_def)
  have c: "current (snd (rng_random g)) < 2 ^ 32"
    by (simp add: rng_random_current)
  have d: "current g < 2 ^ 32 \<longrightarrow> current g * 1664525 + 1013904223 < 2 ^ 53"
    by simp
  show ?thesis
    using a b c d rng_random_current [of g] rng_random_value [of g] rng_random_range [of g]
      draws_range [of _ n "newSeededRandom s"]
    by blast
qed

theorem C1_lcg_step_witness:
  "current (newSeededRandom 42) < 2 ^ 32
   \<and> current (newSeededRandom 42) * 1664525 + 1013904223 < 2 ^ 53
   \<and> draws (Suc (Suc 0)) (newSeededRandom 42) = [1083814273 / 2 ^ 32, 378494188 / 2 ^ 32]
   \<and> 0 \<le> hd (draws (Suc (Suc 0)) (newSeededRandom 42))
   \<and> hd (draws (Suc (Suc 0)) (newSeededRandom 42)) < 1"
proof -
  have c: "current (newSeededRandom 42) < 2 ^ 32"
    by (simp add: newSeededRandom_def)
  have e: "draws (Suc (Suc 0)) (newSeededRandom 42) = [1083814273 / 2 ^ 32, 378494188 / 2 ^ 32]"
    by (simp add: rng_random_def newSeededRandom_def Let_def)
  show ?thesis
    using C1_lcg_step [of "newSeededRandom 42" "Suc (Suc 0)" 42] e c
    by simp
qed

section \<open>The content hash\<close>

lemma js_and_same: "js_and k k = toInt32 k"
  by (simp add: js_and_def)

lemma js_shl_5: "js_shl h 5 = toInt32 (32 * h)"
proof -
  have "signed_take_bit 31 (push_bit 5 (signed_take_bit 31 h)) = signed_take_bit 31 (32 * signed_take_bit 31 h)"
    by (simp add: push_bit_eq_mult mult.commute)
  also have "\<dots> = signed_take_bit 31 (32 * h)"
    by (metis signed_take_bit_mult signed_take_bit_signed_take_bit min.idem)
  finally show ?thesis
    by (simp add: js_shl_def toInt32_def)
qed

lemma hashStep_eq: "hashStep h c = toInt32 (h * 31 + int c)"
proof -
  have "hashStep h c = signed_take_bit 31 (signed_take_bit 31 (32 * h) - h + int c)"
    by (simp add: hashStep_def js_and_same js_shl_5 toInt32_def)
  also have "\<dots> = signed_take_bit 31 (signed_take_bit 31 (signed_take_bit 31 (32 * h) - h) + signed_take_bit 31 (int c))"
    by (simp only: signed_take_bit_add)
  also have "signed_take_bit 31 (signed_take_bit 31 (32 * h) - h) = signed_take_bit 31 (signed_take_bit 31 (32 * h) - signed_take_bit 31 h)"
    by (metis signed_take_bit_diff signed_take_bit_signed_take_bit min.idem)
  also have "\<dots> = signed_take_bit 31 (32 * h - h)"
    by (simp only: signed_take_bit_diff)
  also have "signed_take_bit 31 (signed_take_bit 31 (32 * h - h) + signed_take_bit 31 (int c)) = signed_take_bit 31 ((32 * h - h) + int c)"
    by (simp only: signed_take_bit_add)
  finally show ?thesis by (simp add: toInt32_def mult.commute)
qed

lemma toInt32_mod: "toInt32 (k mod 2 ^ 32) = toInt32 k"
proof -
  have "signed_take_bit 31 (take_bit 32 k) = signed_take_bit 31 k"
    by (simp add: signed_take_bit_take_bit)
  then show ?thesis by (simp add: toInt32_def take_bit_eq_mod)
qed

lemma toInt32_step: "toInt32 (toInt32 u * 31 + int c) = toInt32 (u * 31 + int c)"
proof -
  have "signed_take_bit 31 (signed_take_bit 31 u * 31 + int c) =
        signed_take_bit 31 (signed_take_bit 31 (signed_take_bit 31 u * 31) + signed_take_bit 31 (int c))"
    by (simp only: signed_take_bit_add)
  also have "signed_take_bit 31 (signed_take_bit 31 u * 31) = signed_take_bit 31 (u * 31)"
    by (metis signed_take_bit_mult signed_take_bit_signed_take_bit min.idem)
  also have "signed_take_bit 31 (signed_take_bit 31 (u * 31) + signed_take_bit 31 (int c)) = signed_take_bit 31 (u * 31 + int c)"
    by (simp only: signed_take_bit_add)
  finally show ?thesis by (simp add: toInt32_def)
qed

lemma toInt32_explicit: "toInt32 k = (k + 2 ^ 31) mod 2 ^ 32 - 2 ^ 31"
  by (simp add: toInt32_def signed_take_bit_eq_take_bit_shift take_bit_eq_mod)

lemma toInt32_unsigned:
  assumes "0 \<le> u" and "u < 2 ^ 32"
  shows "toInt32 u = (if u < 2 ^ 31 then u else u - 2 ^ 32)"
proof (cases "u < 2 ^ 31")
  case True
  with assms have "(u + 2147483648) mod 4294967296 = u + 2147483648"
    by simp
  with True show ?thesis
    by (simp add: toInt32_explicit)
next
  case False
  with assms have "(u + 2147483648) mod 4294967296 = u + 2147483648 - 4294967296"
    by (simp add: mod_pos_geq)
  with False show ?thesis
    by (simp add: toInt32_explicit)
qed

lemma foldl_hashStep:
  "foldl hashStep (toInt32 u) s = toInt32 (foldl (\<lambda>hash c. (hash * 31 + int c) mod 2 ^ 32) u s)"
proof (induction s arbitrary: u)
  case Nil
  then show ?case by simp
next
  case (Cons c s)
  have "hashStep (toInt32 u) c = toInt32 ((u * 31 + int c) mod 2 ^ 32)"
    by (simp only: hashStep_eq toInt32_step toInt32_mod)
  then show ?case
    using Cons.IH [of "(u * 31 + int c) mod 2 ^ 32"] by simp
qed

lemma foldl_rolling_range:
  "0 \<le> u \<Longrightarrow> u < 2 ^ 32 \<Longrightarrow>
   0 \<le> foldl (\<lambda>hash c. (hash * 31 + int c) mod 2 ^ 32) u s
   \<and> foldl (\<lambda>hash c. (hash * 31 + int c) mod 2 ^ 32) u s < 2 ^ 32"
  by (induction s arbitrary: u) simp_all

lemma rollingHash_range: "0 \<le> rollingHash s \<and> rollingHash s < 2 ^ 32"
  unfolding rollingHash_def by (rule foldl_rolling_range) simp_all

lemma foldl_hashStep_rolling: "foldl hashStep 0 s = toInt32 (rollingHash s)"
proof -
  have "toInt32 0 = 0"
    by (simp add: toInt32_def)
  then show ?thesis
    using foldl_hashStep [of 0 s] by (simp add: rollingHash_def)
qed

lemma abs_toInt32_rolling:
  "\<bar>toInt32 (rollingHash s)\<bar> = (if rollingHash s < 2 ^ 31 then rollingHash s else 2 ^ 32 - rollingHash s)"
  using rollingHash_range [of s] toInt32_unsigned [of "rollingHash s"] by auto

lemma hashContent_rolling:
  "hashContent s = (if rollingHash s < 2 ^ 31 then rollingHash s else 2 ^ 32 - rollingHash s)"
  by (simp only: hashContent_def foldl_hashStep_rolling abs_toInt32_rolling)

lemma hashContent_range: "0 \<le> hashContent s \<and> hashContent s \<le> 2 ^ 31"
  using rollingHash_range [of s] by (simp add: hashContent_rolling)

lemma getHash_hashContent: "getHash a = hashContent (cleanContent a)"
  by (simp add: getHash_def hashContent_def)

lemma cleanText_hello_world: "cleanText (js ''Hello world'') = js ''Hello world''"
  by (simp add: js_def cleanText_def Let_def trim_def isSpace_def)

lemma rollingHash_hello_world: "rollingHash (js ''Hello world'') = 3461974692"
  by (simp add: rollingHash_def js_def)

text \<open>
  C3, as stated: the content hash is the rolling hash \<open>(hash * 31 + charCode) mod 2^32\<close>
  with the absolute value taken. For the text \<open>Hello world\<close> that value is 3461974692; the
  code returns 832992604, because \<open>hash & hash\<close> keeps the accumulator in the signed 32-bit
  range and \<open>Math.abs\<close> then negates the negative value.
\<close>

theorem C3_unsigned_reading_counterexample:
  "getHash (newContentAnalyzer (js ''Hello world''))
     \<noteq> spec_contentHash (cleanContent (newContentAnalyzer (js ''Hello world'')))
   \<and> getHash (newContentAnalyzer (js ''Hello world'')) = 832992604
   \<and> spec_contentHash (cleanContent (newContentAnalyzer (js ''Hello world''))) = 3461974692"
  by (simp add: getHash_hashContent newContentAnalyzer_def cleanText_hello_world
      hashContent_rolling spec_contentHash_def rollingHash_hello_world)

text \<open>
  C3, amended: each step reduces \<open>hash * 31 + charCode\<close> modulo \<open>2^32\<close> into the signed
  range \<open>[-2^31, 2^31)\<close> (\<open>toInt32\<close>); the content hash is the absolute value of that
  signed accumulator. With \<open>u\<close> the unsigned rolling hash, it is \<open>u\<close> when \<open>u < 2^31\<close> and
  \<open>2^32 - u\<close> otherwise, an integer in \<open>[0, 2^31]\<close>; \<open>getHash\<close> and \<open>hashContent\<close> agree.
\<close>

theorem C3_content_hash:
  "getHash a = \<bar>toInt32 (rollingHash (cleanContent a))\<bar>
   \<and> getHash a = (if rollingHash (cleanContent a) < 2 ^ 31 then rollingHash (cleanContent a)
                  else 2 ^ 32 - rollingHash (cleanContent a))
   \<and> 0 \<le> getHash a \<and> getHash a \<le> 2 ^ 31
   \<and> hashContent (cleanContent a) = getHash a
   \<and> hashStep h c = toInt32 (h * 31 + int c)
   \<and> toInt32 k = (k + 2 ^ 31) mod 2 ^ 32 - 2 ^ 31"
  using hashContent_range [of "cleanContent a"] hashContent_rolling [of "cleanContent a"]
    abs_toInt32_rolling [of "cleanContent a"] hashStep_eq [of h c] toInt32_explicit [of k]
  by (simp add: getHash_hashContent)

section \<open>Metrics of the literal text\<close>

lemma cleanText_literal:
  "cleanText (js ''Hello world. This is a test.'') = js ''Hello world. This is a test.''"
  by (simp add: js_def cleanText_def Let_def trim_def isSpace_def)

lemma getWords_literal:
  "getWords (newContentAnalyzer (js ''Hello world. This is a test.'')) =
     [js ''hello'', js ''world'', js ''this'', js ''is'', js ''a'', js ''test'']"
  by (simp add: getWords_def newContentAnalyzer_def cleanText_literal)
    (simp add: js_def toLowerCase_def lowerUnit_def isSpace_def isWordChar_def)

text \<open>
  C8: for the text \<open>Hello world. This is a test.\<close> the word list is
  \<open>hello, world, this, is, a, test\<close> (lengths 5, 5, 4, 2, 1, 4), \<open>wordCount\<close> is 6,
  \<open>readingTime\<close> is 1 and \<open>avgWordLength\<close> is \<open>21 / 6 = 3.5\<close>.
\<close>

theorem C8_literal_metrics:
  "words (analyze (newContentAnalyzer (js ''Hello world. This is a test.''))) =
     [js ''hello'', js ''world'', js ''this'', js ''is'', js ''a'', js ''test'']
   \<and> map length (words (analyze (newContentAnalyzer (js ''Hello world. This is a test.'')))) =
     [5, 5, 4, 2, 1, 4]
   \<and> wordCount (analyze (newContentAnalyzer (js ''Hello world. This is a test.''))) = 6
   \<and> readingTime (analyze (newContentAnalyzer (js ''Hello world. This is a test.''))) = 1
   \<and> avgWordLength (analyze (newContentAnalyzer (js ''Hello world. This is a test.''))) = 21 / 6
   \<and> avgWordLength (analyze (newContentAnalyzer (js ''Hello world. This is a test.''))) = 3.5"
  by (simp add: analyze_def Let_def getWords_literal js_round_def) (simp add: js_def)

section \<open>Paragraph count\<close>

lemma getParagraphCount_ge_1: "1 \<le> getParagraphCount a"
  by (cases "matchPTags (rawContent a)") (simp_all add: getParagraphCount_def Let_def)

lemma getParagraphCount_plain:
  "matchPTags (rawContent a) = [] \<Longrightarrow>
   getParagraphCount a =
     max (length (filter (\<lambda>para. length (trim para) > 0) (splitParagraphs [] (rawContent a)))) 1"
  by (simp add: getParagraphCount_def Let_def)

lemma getParagraphCount_tags:
  "matchPTags (rawContent a) \<noteq> [] \<Longrightarrow> getParagraphCount a = length (matchPTags (rawContent a))"
  by (simp add: getParagraphCount_def Let_def)

text \<open>
  C10: for every input the paragraph count is at least 1, for the empty string it is 1;
  without a \<open><p ...>\<close> tag it is the number of pieces between blank-line separators
  that are not all white space, floored at 1.
\<close>

theorem C10_paragraph_count:
  "1 \<le> getParagraphCount a
   \<and> 1 \<le> paragraphCount (analyze a)
   \<and> getParagraphCount (newContentAnalyzer []) = 1
   \<and> paragraphCount (analyze (newContentAnalyzer [])) = 1
   \<and> (matchPTags (rawContent a) = [] \<longrightarrow>
        getParagraphCount a =
          max (length (filter (\<lambda>para. length (trim para) > 0)
                 (splitParagraphs [] (rawContent a)))) 1)"
proof -
  have e: "getParagraphCount (newContentAnalyzer []) = 1"
    by (simp add: getParagraphCount_def newContentAnalyzer_def Let_def trim_def)
  have p: "paragraphCount (analyze b) = getParagraphCount b" for b
    by (simp add: analyze_def Let_def)
  show ?thesis
    using getParagraphCount_ge_1 [of a] getParagraphCount_plain [of a] e
    by (simp add: p)
qed

theorem C10_paragraph_count_witness:
  "matchPTags (rawContent (newContentAnalyzer [97, 10, 32, 10, 98])) = []
   \<and> splitParagraphs [] (rawContent (newContentAnalyzer [97, 10, 32, 10, 98])) = [[97], [98]]
   \<and> getParagraphCount (newContentAnalyzer [97, 10, 32, 10, 98]) = 2"
proof -
  have m: "matchPTags (rawContent (newContentAnalyzer [97, 10, 32, 10, 98])) = []"
    by (simp add: newContentAnalyzer_def)
  have s: "splitParagraphs [] (rawContent (newContentAnalyzer [97, 10, 32, 10, 98])) = [[97], [98]]"
    by (simp add: newContentAnalyzer_def sepMatch_def isSpace_def)
  show ?thesis
    using C10_paragraph_count [of "newContentAnalyzer [97, 10, 32, 10, 98]"] m s
    by (simp add: trim_def isSpace_def)
qed

section \<open>Parameter mapping\<close>

text \<open>
  C2: the number of layers the renderer draws for the mapped parameters is
  \<open>max 3 (floor (min readingTime 10))\<close>, an integer from 3 to 10. The mapper stores
  \<open>min readingTime 10\<close> in \<open>layers\<close>; \<open>drawOrganicFlows\<close> applies the floor and the
  lower bound 3.
\<close>

theorem C2_layer_count:
  "numLayers (generateVisualParams m) = max 3 \<lfloor>min (real_of_int (readingTime m)) 10\<rfloor>
   \<and> layers (generateVisualParams m) = min (real_of_int (readingTime m)) 10
   \<and> 3 \<le> numLayers (generateVisualParams m)
   \<and> numLayers (generateVisualParams m) \<le> 10"
proof -
  have l: "layers (generateVisualParams m) = min (real_of_int (readingTime m)) 10"
    by (simp add: generateVisualParams_def Let_def)
  have "min (real_of_int (readingTime m)) 10 \<le> 10"
    by simp
  then have "\<lfloor>min (real_of_int (readingTime m)) 10\<rfloor> \<le> 10"
    by (simp add: floor_le_iff)
  then show ?thesis
    by (simp add: numLayers_def l)
qed

lemma js_rem_nonneg: "0 \<le> a \<Longrightarrow> js_rem a 10 = a mod 10"
  by (cases "a = 0") (simp_all add: js_rem_def)

lemma paletteIndex_eq:
  "paletteIndex (generateVisualParams m) = hashContent (metricsCleanContent m) mod 10"
  using hashContent_range [of "metricsCleanContent m"]
  by (simp add: generateVisualParams_def Let_def js_rem_nonneg)

lemma length_initColorPalettes: "length initColorPalettes = 10"
  by (simp add: initColorPalettes_def)

lemma paletteAt_in_range: "0 \<le> i \<Longrightarrow> i \<le> 9 \<Longrightarrow> paletteAt i = Some (initColorPalettes ! nat i)"
  by (simp add: paletteAt_def js_nth_def length_initColorPalettes)

text \<open>
  C9: the palette index is the content hash modulo 10, from 0 to 9; the palette table has
  exactly 10 entries, and reading it at any index from 0 to 9 yields an entry.
\<close>

theorem C9_palette_index:
  "paletteIndex (generateVisualParams m) = hashContent (metricsCleanContent m) mod 10
   \<and> 0 \<le> paletteIndex (generateVisualParams m)
   \<and> paletteIndex (generateVisualParams m) \<le> 9
   \<and> length initColorPalettes = 10
   \<and> (\<forall>i. 0 \<le> i \<and> i \<le> 9 \<longrightarrow> paletteAt i = Some (initColorPalettes ! nat i))
   \<and> paletteAt (paletteIndex (generateVisualParams m)) \<noteq> None
   \<and> paletteIndex (generateVisualParams (analyze a)) = getHash a mod 10"
proof -
  have r: "0 \<le> paletteIndex (generateVisualParams m) \<and> paletteIndex (generateVisualParams m) \<le> 9"
    by (simp add: paletteIndex_eq)
  have c: "metricsCleanContent (analyze a) = cleanContent a"
    by (simp add: analyze_def Let_def)
  show ?thesis
    using r paletteAt_in_range [of "paletteIndex (generateVisualParams m)"]
    by (simp add: paletteIndex_eq length_initColorPalettes paletteAt_in_range c getHash_hashContent)
qed

theorem C9_palette_index_witness:
  "paletteIndex (generateVisualParams (analyze (newContentAnalyzer (js ''Hello world'')))) = 4
   \<and> paletteAt 4 = Some \<lparr>bg = [''#0F2027'', ''#203A43'', ''#2C5364''],
                           accents = [''#F857A6'', ''#FF5858'', ''#FFC371'']\<rparr>
   \<and> paletteAt 10 = None"
proof -
  have h: "getHash (newContentAnalyzer (js ''Hello world'')) = 832992604"
    by (simp add: getHash_hashContent newContentAnalyzer_def cleanText_hello_world
      hashContent_rolling rollingHash_hello_world)
  have i: "paletteIndex (generateVisualParams (analyze (newContentAnalyzer (js ''Hello world'')))) =
           getHash (newContentAnalyzer (js ''Hello world'')) mod 10"
    using C9_palette_index [of "analyze (newContentAnalyzer (js ''Hello world''))"
        "newContentAnalyzer (js ''Hello world'')"]
    by blast
  have p: "paletteAt 4 = Some (initColorPalettes ! nat 4)"
    using C9_palette_index [of "analyze (newContentAnalyzer (js ''Hello world''))"
        "newContentAnalyzer (js ''Hello world'')"]
    by simp
  have n: "initColorPalettes ! nat 4 = \<lparr>bg = [''#0F2027'', ''#203A43'', ''#2C5364''],
                           accents = [''#F857A6'', ''#FF5858'', ''#FFC371'']\<rparr>"
    by (simp add: initColorPalettes_def)
  have t: "paletteAt 10 = None"
    by (simp add: paletteAt_def js_nth_def length_initColorPalettes)
  show ?thesis
    by (simp only: i h p n t) simp
qed

section \<open>Shape selection\<close>

lemma js_fmod_100_range:
  assumes "0 \<le> a"
  shows "0 \<le> js_fmod a 100 \<and> js_fmod a 100 < 100"
proof -
  have t: "js_trunc (a / 100) = \<lfloor>a / 100\<rfloor>"
    using assms by (simp add: js_trunc_def)
  have lo: "of_int \<lfloor>a / 100\<rfloor> \<le> a / 100"
    by (rule of_int_floor_le)
  have hi: "a / 100 < of_int \<lfloor>a / 100\<rfloor> + 1"
    by linarith
  from lo hi show ?thesis
    by (simp add: js_fmod_def t field_simps)
qed

lemma shapeSelector_range:
  "0 \<le> sm \<Longrightarrow> 0 \<le> shapeSelector offset sm \<and> shapeSelector offset sm < 100"
  unfolding shapeSelector_def by (rule js_fmod_100_range) simp

lemma kindOf_selectShape: "kindOf (selectShape sel x y sz sv ns off) = selectKind sel"
  by (simp add: selectShape_def selectKind_def)

lemma selectKind_thresholds:
  "selectKind sel =
     (if sel < 20 then Circle else if sel < 35 then Star else if sel < 50 then Rectangle
      else if sel < 70 then RegularPolygon else OrganicBlob)"
  by (simp add: selectKind_def selectShape_def)

lemma flowKind_drawFlow:
  "flowKind (fst (drawFlow p w h ac layer flow g)) =
     Some (selectKind (shapeSelector (flow + layer * 100) (smoothness p)))"
  by (simp add: drawFlow_def Let_def split_def kindOf_selectShape)

lemma flowKind_flowLoop:
  "map flowKind (fst (flowLoop p w h ac layer flow g)) =
     map (\<lambda>f. Some (selectKind (shapeSelector (f + layer * 100) (smoothness p))))
       [flow ..< nat (numFlows p)]"
proof (induction p w h ac layer flow g rule: flowLoop.induct)
  case (1 p w h ac layer flow g)
  show ?case
  proof (cases "int flow < numFlows p")
    case True
    obtain c g' where d: "drawFlow p w h ac layer flow g = (c, g')"
      by (cases "drawFlow p w h ac layer flow g")
    obtain cs g'' where l: "flowLoop p w h ac layer (Suc flow) g' = (cs, g'')"
      by (cases "flowLoop p w h ac layer (Suc flow) g'")
    have k: "flowKind c = Some (selectKind (shapeSelector (flow + layer * 100) (smoothness p)))"
      using flowKind_drawFlow [of p w h ac layer flow g] d by simp
    have ih: "map flowKind cs =
        map (\<lambda>f. Some (selectKind (shapeSelector (f + layer * 100) (smoothness p))))
          [Suc flow ..< nat (numFlows p)]"
      using "1.IH" [OF True d [symmetric] refl] l by simp
    have u: "[flow ..< nat (numFlows p)] = flow # [Suc flow ..< nat (numFlows p)]"
      using True by (simp add: upt_conv_Cons)
    have f: "flowLoop p w h ac layer flow g = (c # cs, g'')"
      using True d l by (subst flowLoop.simps) simp
    show ?thesis
      by (simp only: f u fst_conv list.map k ih)
  next
    case False
    then have "flowLoop p w h ac layer flow g = ([], g)"
      by (subst flowLoop.simps) simp
    with False show ?thesis by simp
  qed
qed

lemma smoothness_mapped_nonneg: "0 \<le> smoothness (generateVisualParams (analyze a))"
proof -
  have "0 \<le> avgWordLength (analyze a)"
    by (simp add: analyze_def Let_def js_round_def)
  then show ?thesis
    by (simp add: generateVisualParams_def Let_def)
qed

text \<open>
  C5: the shape selector of a flow is \<open>(offset * 37 + smoothness * 100) mod 100\<close>, a function
  of \<open>offset\<close> and \<open>smoothness\<close> alone: two flows with the same offset and smoothness get
  the same kind of shape whatever the generator state, the canvas size and the other
  parameters; every flow of a layer gets the kind of its own selector; the selector lies in
  \<open>[0, 100)\<close>, and the kinds are circle below 20, star below 35, rotated rectangle below 50,
  regular polygon below 70 and blob from 70 on.
\<close>

theorem C5_shape_selector:
  "shapeSelector offset sm = js_fmod (real offset * 37 + sm * 100) 100
   \<and> flowKind (fst (drawFlow p w h ac layer flow g)) =
       Some (selectKind (shapeSelector (flow + layer * 100) (smoothness p)))
   \<and> (flow + layer * 100 = flow' + layer' * 100 \<and> smoothness p = smoothness p' \<longrightarrow>
        flowKind (fst (drawFlow p w h ac layer flow g)) =
        flowKind (fst (drawFlow p' w' h' ac' layer' flow' g')))
   \<and> map flowKind (fst (flowLoop p w h ac layer flow g)) =
       map (\<lambda>f. Some (selectKind (shapeSelector (f + layer * 100) (smoothness p))))
         [flow ..< nat (numFlows p)]
   \<and> (0 \<le> sm \<longrightarrow> 0 \<le> shapeSelector offset sm \<and> shapeSelector offset sm < 100)
   \<and> 0 \<le> shapeSelector offset (smoothness (generateVisualParams (analyze a)))
   \<and> shapeSelector offset (smoothness (generateVisualParams (analyze a))) < 100
   \<and> (selectKind sel = Circle) = (sel < 20)
   \<and> (selectKind sel = Star) = (20 \<le> sel \<and> sel < 35)
   \<and> (selectKind sel = Rectangle) = (35 \<le> sel \<and> sel < 50)
   \<and> (selectKind sel = RegularPolygon) = (50 \<le> sel \<and> sel < 70)
   \<and> (selectKind sel = OrganicBlob) = (70 \<le> sel)"
proof -
  have i: "flow + layer * 100 = flow' + layer' * 100 \<and> smoothness p = smoothness p' \<longrightarrow>
        flowKind (fst (drawFlow p w h ac layer flow g)) =
        flowKind (fst (drawFlow p' w' h' ac' layer' flow' g'))"
    by (simp add: flowKind_drawFlow)
  have t: "(selectKind sel = Circle) = (sel < 20)
   \<and> (selectKind sel = Star) = (20 \<le> sel \<and> sel < 35)
   \<and> (selectKind sel = Rectangle) = (35 \<le> sel \<and> sel < 50)
   \<and> (selectKind sel = RegularPolygon) = (50 \<le> sel \<and> sel < 70)
   \<and> (selectKind sel = OrganicBlob) = (70 \<le> sel)"
    by (simp add: selectKind_thresholds)
  have s: "shapeSelector offset sm = js_fmod (real offset * 37 + sm * 100) 100"
    by (simp add: shapeSelector_def)
  show ?thesis
    using s i t flowKind_drawFlow [of p w h ac layer flow g]
      flowKind_flowLoop [of p w h ac layer flow g]
      shapeSelector_range [of sm offset]
      shapeSelector_range [OF smoothness_mapped_nonneg, of offset a]
    by blast
qed

theorem C5_shape_selector_witness:
  "(100::nat) + 0 * 100 = 0 + 1 * 100
   \<and> smoothness \<lparr>seed = 1749, density = 3 / 500, complexity = 7 / 1250, smoothness = 7 / 20,
        layers = 1, shapeVertices = 3, paletteIndex = 7, minStroke = None, maxStroke = None\<rparr> =
      smoothness \<lparr>seed = 5, density = 1, complexity = 1, smoothness = 7 / 20,
        layers = 4, shapeVertices = 9, paletteIndex = 2, minStroke = None, maxStroke = None\<rparr>
   \<and> (0::real) \<le> 7 / 20
   \<and> shapeSelector 100 (7 / 20) = 35
   \<and> flowKind (fst (drawFlow \<lparr>seed = 1749, density = 3 / 500, complexity = 7 / 1250,
        smoothness = 7 / 20, layers = 1, shapeVertices = 3, paletteIndex = 7, minStroke = None,
        maxStroke = None\<rparr> 1200 1200 [''#4ECDC4''] 0 100 (newSeededRandom 42))) = Some Rectangle
   \<and> flowKind (fst (drawFlow \<lparr>seed = 5, density = 1, complexity = 1, smoothness = 7 / 20,
        layers = 4, shapeVertices = 9, paletteIndex = 2, minStroke = None, maxStroke = None\<rparr>
        1200 628 [] 1 0 (newSeededRandom 7))) = Some Rectangle
   \<and> map flowKind (fst (flowLoop \<lparr>seed = 1749, density = 3 / 500, complexity = 7 / 1250,
        smoothness = 7 / 20, layers = 1, shapeVertices = 3, paletteIndex = 7, minStroke = None,
        maxStroke = None\<rparr> 1200 1200 [''#4ECDC4''] 0 0 (newSeededRandom 42))) =
      [Some Rectangle, Some OrganicBlob, Some Circle, Some Rectangle, Some OrganicBlob]"
proof -
  let ?P = "\<lparr>seed = 1749, density = 3 / 500, complexity = 7 / 1250, smoothness = 7 / 20,
        layers = 1, shapeVertices = 3, paletteIndex = 7, minStroke = None, maxStroke = None\<rparr>"
  let ?Q = "\<lparr>seed = 5, density = 1, complexity = 1, smoothness = 7 / 20,
        layers = 4, shapeVertices = 9, paletteIndex = 2, minStroke = None, maxStroke = None\<rparr>"
  note T = C5_shape_selector [of 100 "7 / 20" ?P 1200 1200 "[''#4ECDC4'']" 0 100
      "newSeededRandom 42" 0 1 ?Q 1200 628 "[]" "newSeededRandom 7" _ 35]
  have n: "nat (numFlows ?P) = 5"
    by (simp add: numFlows_def)
  have s: "shapeSelector 100 (7 / 20) = 35" "shapeSelector 0 (7 / 20) = 35"
    "shapeSelector (Suc 0) (7 / 20) = 72" "shapeSelector 2 (7 / 20) = 9"
    "shapeSelector 3 (7 / 20) = 46" "shapeSelector 4 (7 / 20) = 83"
    by (simp_all add: shapeSelector_def js_fmod_def js_trunc_def)
  have k: "selectKind 35 = Rectangle" "selectKind 72 = OrganicBlob" "selectKind 9 = Circle"
    "selectKind 46 = Rectangle" "selectKind 83 = OrganicBlob"
    by (simp_all add: selectKind_thresholds)
  have a: "flowKind (fst (drawFlow ?P 1200 1200 [''#4ECDC4''] 0 100 (newSeededRandom 42))) = Some Rectangle"
    using T s k by simp
  have b: "flowKind (fst (drawFlow ?Q 1200 628 [] 1 0 (newSeededRandom 7))) = Some Rectangle"
    using T a by simp
  have u: "[0 ..< 5] = [0, Suc 0, 2, 3, 4]"
    by (simp add: upt_conv_Cons)
  have c: "map flowKind (fst (flowLoop ?P 1200 1200 [''#4ECDC4''] 0 0 (newSeededRandom 42))) =
      [Some Rectangle, Some OrganicBlob, Some Circle, Some Rectangle, Some OrganicBlob]"
    using C5_shape_selector [of 0 0 ?P 1200 1200 "[''#4ECDC4'']" 0 0 "newSeededRandom 42"]
    by (simp only: n u) (simp add: s k)
  show ?thesis
    using a b c s by simp
qed

section \<open>Stroke width of the flowing curves\<close>

lemma curveLoop_unfold:
  "curveLoop p ac layer 0 =
     [drawCurve p ac layer 0, drawCurve p ac layer (Suc 0), drawCurve p ac layer (Suc (Suc 0))]"
proof -
  have 3: "curveLoop p ac layer (Suc (Suc (Suc 0))) = []"
    by (subst curveLoop.simps) (simp add: numeral_3_eq_3)
  have 2: "curveLoop p ac layer (Suc (Suc 0)) = [drawCurve p ac layer (Suc (Suc 0))]"
    using 3 by (subst curveLoop.simps) (simp add: numeral_3_eq_3)
  have 1: "curveLoop p ac layer (Suc 0) = [drawCurve p ac layer (Suc 0), drawCurve p ac layer (Suc (Suc 0))]"
    using 2 by (subst curveLoop.simps) (simp add: numeral_3_eq_3)
  show ?thesis
    using 1 by (subst curveLoop.simps) (simp add: numeral_3_eq_3)
qed

lemma curveLoopBrowser_unfold:
  "curveLoopBrowser p ac layer 0 =
     [drawCurveBrowser p ac layer 0, drawCurveBrowser p ac layer (Suc 0), drawCurveBrowser p ac layer (Suc (Suc 0))]"
proof -
  have 3: "curveLoopBrowser p ac layer (Suc (Suc (Suc 0))) = []"
    by (subst curveLoopBrowser.simps) (simp add: numeral_3_eq_3)
  have 2: "curveLoopBrowser p ac layer (Suc (Suc 0)) = [drawCurveBrowser p ac layer (Suc (Suc 0))]"
    using 3 by (subst curveLoopBrowser.simps) (simp add: numeral_3_eq_3)
  have 1: "curveLoopBrowser p ac layer (Suc 0) = [drawCurveBrowser p ac layer (Suc 0), drawCurveBrowser p ac layer (Suc (Suc 0))]"
    using 2 by (subst curveLoopBrowser.simps) (simp add: numeral_3_eq_3)
  show ?thesis
    using 1 by (subst curveLoopBrowser.simps) (simp add: numeral_3_eq_3)
qed

lemma node_line_width:
  "map strokeWidth (curveLoop p ac layer 0) =
     replicate 3 (Some (orDefault (minStroke p) 0.5
        + complexity p * (orDefault (maxStroke p) 1.5 - orDefault (minStroke p) 0.5)))"
  by (simp add: curveLoop_unfold drawCurve_def Let_def numeral_3_eq_3)

lemma browser_stroke_weight:
  "map strokeWidth (curveLoopBrowser p ac layer 0) = replicate 3 (Some (2 + complexity p * 3))"
  by (simp add: curveLoopBrowser_unfold drawCurveBrowser_def Let_def numeral_3_eq_3)

lemma flowLoop_fills:
  "op \<in> set (fst (flowLoop p w h ac layer flow g)) \<Longrightarrow> strokeWidth op = None"
proof (induction p w h ac layer flow g rule: flowLoop.induct)
  case (1 p w h ac layer flow g)
  show ?case
  proof (cases "int flow < numFlows p")
    case True
    obtain c g' where d: "drawFlow p w h ac layer flow g = (c, g')"
      by (cases "drawFlow p w h ac layer flow g")
    obtain cs g'' where l: "flowLoop p w h ac layer (Suc flow) g' = (cs, g'')"
      by (cases "flowLoop p w h ac layer (Suc flow) g'")
    have f: "flowLoop p w h ac layer flow g = (c # cs, g'')"
      using True d l by (subst flowLoop.simps) simp
    have c: "strokeWidth c = None"
      using d by (auto simp: drawFlow_def Let_def split_def)
    from "1.prems" f have "op = c \<or> op \<in> set cs"
      by simp
    then show ?thesis
    proof
      assume "op = c"
      with c show ?thesis by simp
    next
      assume "op \<in> set cs"
      then have "op \<in> set (fst (flowLoop p w h ac layer (Suc flow) g'))"
        using l by simp
      then show ?thesis
        by (rule "1.IH" [OF True d [symmetric] refl])
    qed
  next
    case False
    then have "flowLoop p w h ac layer flow g = ([], g)"
      by (subst flowLoop.simps) simp
    with "1.prems" show ?thesis by simp
  qed
qed

lemma node_layers_line_width:
  "op \<in> set (fst (layerLoop p w h ac layer g)) \<Longrightarrow>
   strokeWidth op = None \<or>
   strokeWidth op = Some (orDefault (minStroke p) 0.5
        + complexity p * (orDefault (maxStroke p) 1.5 - orDefault (minStroke p) 0.5))"
proof (induction p w h ac layer g rule: layerLoop.induct)
  case (1 p w h ac layer g)
  let ?W = "orDefault (minStroke p) 0.5
        + complexity p * (orDefault (maxStroke p) 1.5 - orDefault (minStroke p) 0.5)"
  show ?case
  proof (cases "int layer < numLayers p")
    case True
    obtain fs g' where fl: "flowLoop p w h ac layer 0 g = (fs, g')"
      by (cases "flowLoop p w h ac layer 0 g")
    obtain rest g'' where l: "layerLoop p w h ac (Suc layer) g' = (rest, g'')"
      by (cases "layerLoop p w h ac (Suc layer) g'")
    have f: "layerLoop p w h ac layer g = (fs @ curveLoop p ac layer 0 @ rest, g'')"
      using True fl l by (subst layerLoop.simps) simp
    from "1.prems" f consider "op \<in> set fs" | "op \<in> set (curveLoop p ac layer 0)" | "op \<in> set rest"
      by auto
    then show ?thesis
    proof cases
      case 1
      then have "op \<in> set (fst (flowLoop p w h ac layer 0 g))"
        using fl by simp
      then show ?thesis
        using flowLoop_fills by blast
    next
      case 2
      then have "strokeWidth op \<in> strokeWidth ` set (curveLoop p ac layer 0)"
        by (rule imageI)
      then have "strokeWidth op \<in> set (replicate 3 (Some ?W))"
        by (simp only: set_map [symmetric] node_line_width)
      then show ?thesis
        by simp
    next
      case 3
      then have "op \<in> set (fst (layerLoop p w h ac (Suc layer) g'))"
        using l by simp
      then show ?thesis
        by (rule "1.IH" [OF True fl [symmetric] refl refl])
    qed
  next
    case False
    then have "layerLoop p w h ac layer g = ([], g)"
      by (subst layerLoop.simps) simp
    with "1.prems" show ?thesis by simp
  qed
qed

text \<open>
  C6, at the parameters with \<open>complexity = 1/2\<close>, \<open>minStroke = 0.5\<close> and \<open>maxStroke = 1.5\<close>: the
  claimed width is \<open>0.5 + 0.5 * (1.5 - 0.5) = 1\<close>. The Node renderer strokes the three curves
  of a layer with width 1; the browser renderer strokes them with \<open>2 + 0.5 * 3 = 3.5\<close> and
  never reads \<open>minStroke\<close> or \<open>maxStroke\<close>.
\<close>

theorem C6_browser_stroke_divergence:
  "map strokeWidth (curveLoop \<lparr>seed = 1, density = 1 / 2, complexity = 1 / 2, smoothness = 1 / 2,
        layers = 3, shapeVertices = 3, paletteIndex = 0, minStroke = Some 0.5,
        maxStroke = Some 1.5\<rparr> [''#4ECDC4'', ''#FF6B9D'', ''#C44569''] 0 0) =
     [Some 1, Some 1, Some 1]
   \<and> map strokeWidth (curveLoopBrowser \<lparr>seed = 1, density = 1 / 2, complexity = 1 / 2,
        smoothness = 1 / 2, layers = 3, shapeVertices = 3, paletteIndex = 0,
        minStroke = Some 0.5, maxStroke = Some 1.5\<rparr> [''#4ECDC4'', ''#FF6B9D'', ''#C44569''] 0 0) =
     [Some 3.5, Some 3.5, Some 3.5]"
proof -
  have r: "replicate 3 x = [x, x, x]" for x :: "real option"
    by (simp add: numeral_3_eq_3)
  show ?thesis
    by (simp only: node_line_width browser_stroke_weight r) (simp add: orDefault_def)
qed

section \<open>The noise field stays in the unit interval\<close>

lemma fade_range:
  assumes "0 \<le> t" and "t \<le> 1"
  shows "0 \<le> fade t \<and> fade t \<le> 1"
proof -
  have q: "0 \<le> t * (t * 6 - 15) + 10"
  proof -
    have "t * (t * 6 - 15) + 10 = 6 * (t - 5 / 4) ^ 2 + 5 / 8"
      by (simp add: power2_eq_square algebra_simps)
    then show ?thesis by simp
  qed
  have lo: "0 \<le> fade t"
    unfolding fade_def using assms q by simp
  have "1 - fade t = (1 - t) * (1 - t) * (1 - t) * (6 * t * t + 3 * t + 1)"
    by (simp add: fade_def algebra_simps)
  moreover have "0 \<le> (1 - t) * (1 - t) * (1 - t) * (6 * t * t + 3 * t + 1)"
    using assms by simp
  ultimately have "0 \<le> 1 - fade t"
    by simp
  with lo show ?thesis by simp
qed

lemma fade_half:
  assumes "0 \<le> t" and "t \<le> 1"
  shows "t + fade t * (1 - 2 * t) \<le> 1 / 2"
proof -
  have e: "t + fade t * (1 - 2 * t) - 1 / 2 =
           - (2 * ((t - 1 / 2) * (t - 1 / 2)) * (6 * (t * (1 - t)) * (t * (1 - t)) + 2 * (t * (1 - t)) + 1))"
    by (simp add: fade_def algebra_simps)
  have p: "0 \<le> t * (1 - t)"
    using assms by simp
  have s: "0 \<le> (t - 1 / 2) * (t - 1 / 2)"
    by (rule zero_le_square)
  have "0 \<le> (t * (1 - t)) * (t * (1 - t))"
    by (rule zero_le_square)
  with p have q: "0 \<le> 6 * (t * (1 - t)) * (t * (1 - t)) + 2 * (t * (1 - t)) + 1"
    by (simp add: mult.assoc)
  have "0 \<le> 2 * ((t - 1 / 2) * (t - 1 / 2)) * (6 * (t * (1 - t)) * (t * (1 - t)) + 2 * (t * (1 - t)) + 1)"
    using s q by (simp only: mult_nonneg_nonneg zero_le_numeral)
  with e show ?thesis by linarith
qed

lemma grad_abs: "\<bar>grad hash a b\<bar> \<le> \<bar>a\<bar> + \<bar>b\<bar>"
  by (auto simp: grad_def Let_def)

lemma lerp_abs:
  assumes "0 \<le> t" and "t \<le> 1" and "\<bar>a\<bar> \<le> A" and "\<bar>b\<bar> \<le> B"
  shows "\<bar>lerp a b t\<bar> \<le> (1 - t) * A + t * B"
proof -
  have "lerp a b t = (1 - t) * a + t * b"
    by (simp add: lerp_def algebra_simps)
  then have "\<bar>lerp a b t\<bar> \<le> \<bar>(1 - t) * a\<bar> + \<bar>t * b\<bar>"
    by (simp add: abs_triangle_ineq)
  also have "\<dots> = (1 - t) * \<bar>a\<bar> + t * \<bar>b\<bar>"
    using assms by (simp add: abs_mult)
  also have "\<dots> \<le> (1 - t) * A + t * B"
    using assms by (intro add_mono mult_left_mono) simp_all
  finally show ?thesis .
qed

lemma noise_res_abs:
  assumes x: "0 \<le> x" "x \<le> 1" and y: "0 \<le> y" "y \<le> 1"
  shows "\<bar>lerp (lerp (grad aa x y) (grad ba (x - 1) y) (fade x))
               (lerp (grad ab x (y - 1)) (grad bb (x - 1) (y - 1)) (fade x)) (fade y)\<bar> \<le> 1"
proof -
  let ?u = "fade x" and ?v = "fade y"
  have u: "0 \<le> ?u" "?u \<le> 1"
    using fade_range [OF x] by simp_all
  have v: "0 \<le> ?v" "?v \<le> 1"
    using fade_range [OF y] by simp_all
  have g00: "\<bar>grad aa x y\<bar> \<le> x + y"
    using grad_abs [of aa x y] x y by simp
  have g10: "\<bar>grad ba (x - 1) y\<bar> \<le> (1 - x) + y"
    using grad_abs [of ba "x - 1" y] x y by simp
  have g01: "\<bar>grad ab x (y - 1)\<bar> \<le> x + (1 - y)"
    using grad_abs [of ab x "y - 1"] x y by simp
  have g11: "\<bar>grad bb (x - 1) (y - 1)\<bar> \<le> (1 - x) + (1 - y)"
    using grad_abs [of bb "x - 1" "y - 1"] x y by simp
  have l0: "\<bar>lerp (grad aa x y) (grad ba (x - 1) y) ?u\<bar> \<le> (1 - ?u) * (x + y) + ?u * ((1 - x) + y)"
    by (rule lerp_abs [OF u g00 g10])
  have l1: "\<bar>lerp (grad ab x (y - 1)) (grad bb (x - 1) (y - 1)) ?u\<bar>
              \<le> (1 - ?u) * (x + (1 - y)) + ?u * ((1 - x) + (1 - y))"
    by (rule lerp_abs [OF u g01 g11])
  have "\<bar>lerp (lerp (grad aa x y) (grad ba (x - 1) y) ?u)
               (lerp (grad ab x (y - 1)) (grad bb (x - 1) (y - 1)) ?u) ?v\<bar>
        \<le> (1 - ?v) * ((1 - ?u) * (x + y) + ?u * ((1 - x) + y))
          + ?v * ((1 - ?u) * (x + (1 - y)) + ?u * ((1 - x) + (1 - y)))"
    by (rule lerp_abs [OF v l0 l1])
  also have "\<dots> = (x + ?u * (1 - 2 * x)) + (y + ?v * (1 - 2 * y))"
    by (simp add: algebra_simps)
  also have "\<dots> \<le> 1 / 2 + 1 / 2"
    by (intro add_mono fade_half x y)
  finally show ?thesis by simp
qed

lemma get_range: "0 \<le> get n x y \<and> get n x y \<le> 1"
proof -
  let ?x = "x - of_int \<lfloor>x\<rfloor>" and ?y = "y - of_int \<lfloor>y\<rfloor>"
  have fx: "0 \<le> ?x" "?x \<le> 1"
    by linarith+
  have fy: "0 \<le> ?y" "?y \<le> 1"
    by linarith+
  have "\<bar>lerp (lerp (grad (perm2 n (js_and \<lfloor>x\<rfloor> 255) (js_and \<lfloor>y\<rfloor> 255)) ?x ?y)
                    (grad (perm2 n (js_and \<lfloor>x\<rfloor> 255 + 1) (js_and \<lfloor>y\<rfloor> 255)) (?x - 1) ?y) (fade ?x))
              (lerp (grad (perm2 n (js_and \<lfloor>x\<rfloor> 255) (js_and \<lfloor>y\<rfloor> 255 + 1)) ?x (?y - 1))
                    (grad (perm2 n (js_and \<lfloor>x\<rfloor> 255 + 1) (js_and \<lfloor>y\<rfloor> 255 + 1)) (?x - 1) (?y - 1)) (fade ?x))
              (fade ?y)\<bar> \<le> 1"
    by (rule noise_res_abs [OF fx fy])
  then show ?thesis
    unfolding get_def Let_def by (simp add: abs_le_iff)
qed

section \<open>The permutation table\<close>

lemma shuffle_index:
  assumes "0 \<le> r" and "r < 1"
  shows "nat \<lfloor>r * real (i + 1)\<rfloor> \<le> i"
proof -
  have "r * real (i + 1) < 1 * real (i + 1)"
    using assms by (intro mult_strict_right_mono) simp_all
  then have "\<lfloor>r * real (i + 1)\<rfloor> < int (i + 1)"
    by (simp add: floor_less_iff)
  then show ?thesis by simp
qed

lemma shuffleLoop_invariant:
  "k < length p \<Longrightarrow> length (shuffleLoop k p g) = length p \<and> set (shuffleLoop k p g) = set p"
proof (induction k arbitrary: p g)
  case 0
  then show ?case by simp
next
  case (Suc k)
  obtain r g' where step: "rng_random g = (r, g')"
    by (cases "rng_random g")
  let ?j = "nat \<lfloor>r * real (Suc k + 1)\<rfloor>"
  let ?p = "p[Suc k := p ! ?j, ?j := p ! Suc k]"
  have "0 \<le> r \<and> r < 1"
    using rng_random_range [of g] step by simp
  then have j: "?j \<le> Suc k"
    using shuffle_index [of r "Suc k"] by simp
  with Suc.prems have jl: "?j < length p"
    by simp
  have len: "length ?p = length p"
    by simp
  have st: "set ?p = set p"
    using Suc.prems jl by (rule set_swap)
  have "k < length ?p"
    using Suc.prems by simp
  then have "length (shuffleLoop k ?p g') = length ?p \<and> set (shuffleLoop k ?p g') = set ?p"
    by (rule Suc.IH)
  moreover have "shuffleLoop (Suc k) p g = shuffleLoop k ?p g'"
    using step by (simp add: Let_def)
  ultimately show ?case
    using len st by simp
qed

lemma generatePermutation_table:
  "length (generatePermutation s) = 512 \<and> set (generatePermutation s) = {0 ..< 256}"
proof -
  have "length (shuffleLoop 255 [0 ..< 256] (newSeededRandom s)) = length [0 ..< 256]
        \<and> set (shuffleLoop 255 [0 ..< 256] (newSeededRandom s)) = set [0 ..< 256]"
    by (rule shuffleLoop_invariant) simp
  then show ?thesis
    by (simp add: generatePermutation_def Let_def)
qed

lemma js_and_255: "0 \<le> js_and k 255 \<and> js_and k 255 \<le> 255"
proof -
  have t: "toInt32 255 = 255"
    by (simp add: toInt32_explicit)
  have "0 \<le> toInt32 k AND 255"
    by (simp add: and_nonnegative_int_iff)
  moreover have "toInt32 k AND 255 \<le> 255"
    by (rule AND_upper2) simp
  ultimately show ?thesis
    by (simp add: js_and_def t)
qed

lemma perm2_defined:
  assumes "0 \<le> a" "a \<le> 256" "0 \<le> b" "b \<le> 256"
  shows "\<exists>k. perm2 (newPerlinNoise s) a b = Some k \<and> k < 256"
proof -
  let ?t = "generatePermutation s"
  have len: "length ?t = 512" and st: "set ?t = {0 ..< 256}"
    using generatePermutation_table [of s] by simp_all
  have a: "nat a < length ?t"
    using assms len by simp
  then have "?t ! nat a \<in> set ?t"
    by (rule nth_mem)
  then have v: "?t ! nat a < 256"
    using st by simp
  have b: "nat (int (?t ! nat a) + b) < length ?t"
    using assms v len by simp
  then have "?t ! nat (int (?t ! nat a) + b) \<in> set ?t"
    by (rule nth_mem)
  then have w: "?t ! nat (int (?t ! nat a) + b) < 256"
    using st by simp
  have "perm2 (newPerlinNoise s) a b = Some (?t ! nat (int (?t ! nat a) + b))"
    using assms v len by (simp add: perm2_def newPerlinNoise_def js_nth_def)
  with w show ?thesis by simp
qed

text \<open>
  C4: for every seed and all real coordinates the noise value lies in \<open>[0, 1]\<close>; the four
  reads of the permutation table that hash the lattice cell are inside the table of 512
  entries, whose values are the numbers below 256.
\<close>

theorem C4_noise_range:
  "0 \<le> get (newPerlinNoise s) x y \<and> get (newPerlinNoise s) x y \<le> 1
   \<and> 0 \<le> get n x y \<and> get n x y \<le> 1
   \<and> length (permutation (newPerlinNoise s)) = 512
   \<and> set (permutation (newPerlinNoise s)) = {0 ..< 256}
   \<and> perm2 (newPerlinNoise s) (js_and \<lfloor>x\<rfloor> 255) (js_and \<lfloor>y\<rfloor> 255) \<noteq> None
   \<and> perm2 (newPerlinNoise s) (js_and \<lfloor>x\<rfloor> 255) (js_and \<lfloor>y\<rfloor> 255 + 1) \<noteq> None
   \<and> perm2 (newPerlinNoise s) (js_and \<lfloor>x\<rfloor> 255 + 1) (js_and \<lfloor>y\<rfloor> 255) \<noteq> None
   \<and> perm2 (newPerlinNoise s) (js_and \<lfloor>x\<rfloor> 255 + 1) (js_and \<lfloor>y\<rfloor> 255 + 1) \<noteq> None"
proof -
  have X: "0 \<le> js_and \<lfloor>x\<rfloor> 255" "js_and \<lfloor>x\<rfloor> 255 \<le> 256"
    "0 \<le> js_and \<lfloor>x\<rfloor> 255 + 1" "js_and \<lfloor>x\<rfloor> 255 + 1 \<le> 256"
    using js_and_255 [of "\<lfloor>x\<rfloor>"] by simp_all
  have Y: "0 \<le> js_and \<lfloor>y\<rfloor> 255" "js_and \<lfloor>y\<rfloor> 255 \<le> 256"
    "0 \<le> js_and \<lfloor>y\<rfloor> 255 + 1" "js_and \<lfloor>y\<rfloor> 255 + 1 \<le> 256"
    using js_and_255 [of "\<lfloor>y\<rfloor>"] by simp_all
  have t: "length (permutation (newPerlinNoise s)) = 512
     \<and> set (permutation (newPerlinNoise s)) = {0 ..< 256}"
    using generatePermutation_table [of s] by (simp add: newPerlinNoise_def)
  show ?thesis
    using get_range [of "newPerlinNoise s" x y] get_range [of n x y] t
      perm2_defined [OF X(1) X(2) Y(1) Y(2), of s] perm2_defined [OF X(1) X(2) Y(3) Y(4), of s]
      perm2_defined [OF X(3) X(4) Y(1) Y(2), of s] perm2_defined [OF X(3) X(4) Y(3) Y(4), of s]
    by auto
qed

section \<open>Direct crop at the master's size\<close>

lemma sourceOver_transparent:
  assumes "alpha s = 0 \<longrightarrow> s = RGBA 0 0 0 0"
  shows "sourceOver s (RGBA 0 0 0 0) = s"
proof (cases s)
  case (RGBA r g b a)
  with assms show ?thesis
    by (cases "a = 0") (simp_all add: Let_def)
qed

lemma getPixel_index:
  assumes "0 < width c" and "length (data c) = width c * height c" and "k < length (data c)"
  shows "getPixel c (k mod width c) (k div width c) = Some (data c ! k)"
proof -
  have x: "k mod width c < width c"
    using assms(1) by simp
  have y: "k div width c < height c"
    using assms by (simp add: less_mult_imp_div_less mult.commute)
  have i: "k div width c * width c + k mod width c = k"
    by simp
  show ?thesis
    using x y i assms(3) by (simp add: getPixel_def)
qed

lemma drawImage_whole:
  assumes len: "length (data m) = width m * height m"
    and black: "\<forall>p \<in> set (data m). alpha p = 0 \<longrightarrow> p = RGBA 0 0 0 0"
  shows "drawImage (createCanvas (width m) (height m)) m 0 0 (width m) (height m) 0 0 = m"
proof -
  let ?n = "width m * height m"
  have each: "(let x = k mod width m; y = k div width m
               in if 0 \<le> x \<and> x < 0 + width m \<and> 0 \<le> y \<and> y < 0 + height m then
                    (case getPixel m (0 + (x - 0)) (0 + (y - 0)) of
                       Some s \<Rightarrow> sourceOver s (replicate ?n (RGBA 0 0 0 0) ! k)
                     | None \<Rightarrow> replicate ?n (RGBA 0 0 0 0) ! k)
                  else replicate ?n (RGBA 0 0 0 0) ! k) = data m ! k"
    if k: "k < ?n" for k
  proof -
    have w: "0 < width m"
      using k by (cases "width m = 0") simp_all
    have kl: "k < length (data m)"
      using k len by simp
    have g: "getPixel m (k mod width m) (k div width m) = Some (data m ! k)"
      by (rule getPixel_index [OF w len kl])
    have x: "k mod width m < width m"
      using w by simp
    have y: "k div width m < height m"
      using k by (simp add: less_mult_imp_div_less mult.commute)
    have "data m ! k \<in> set (data m)"
      using kl by (rule nth_mem)
    then have "alpha (data m ! k) = 0 \<longrightarrow> data m ! k = RGBA 0 0 0 0"
      using black by blast
    then have "sourceOver (data m ! k) (RGBA 0 0 0 0) = data m ! k"
      by (rule sourceOver_transparent)
    then show ?thesis
      using x y g k by (simp add: Let_def)
  qed
  have "map (\<lambda>k. let x = k mod width m; y = k div width m
               in if 0 \<le> x \<and> x < 0 + width m \<and> 0 \<le> y \<and> y < 0 + height m then
                    (case getPixel m (0 + (x - 0)) (0 + (y - 0)) of
                       Some s \<Rightarrow> sourceOver s (replicate ?n (RGBA 0 0 0 0) ! k)
                     | None \<Rightarrow> replicate ?n (RGBA 0 0 0 0) ! k)
                  else replicate ?n (RGBA 0 0 0 0) ! k) [0 ..< ?n]
        = map (\<lambda>k. data m ! k) [0 ..< ?n]"
  proof (rule map_cong [OF refl])
    fix k
    assume "k \<in> set [0 ..< ?n]"
    then have "k < ?n"
      by simp
    then show "(let x = k mod width m; y = k div width m
               in if 0 \<le> x \<and> x < 0 + width m \<and> 0 \<le> y \<and> y < 0 + height m then
                    (case getPixel m (0 + (x - 0)) (0 + (y - 0)) of
                       Some s \<Rightarrow> sourceOver s (replicate ?n (RGBA 0 0 0 0) ! k)
                     | None \<Rightarrow> replicate ?n (RGBA 0 0 0 0) ! k)
                  else replicate ?n (RGBA 0 0 0 0) ! k) = data m ! k"
      by (rule each)
  qed
  also have "\<dots> = data m"
    by (simp only: len [symmetric] map_nth)
  finally have M: "map (\<lambda>k. let x = k mod width m; y = k div width m
               in if 0 \<le> x \<and> x < 0 + width m \<and> 0 \<le> y \<and> y < 0 + height m then
                    (case getPixel m (0 + (x - 0)) (0 + (y - 0)) of
                       Some s \<Rightarrow> sourceOver s (replicate ?n (RGBA 0 0 0 0) ! k)
                     | None \<Rightarrow> replicate ?n (RGBA 0 0 0 0) ! k)
                  else replicate ?n (RGBA 0 0 0 0) ! k) [0 ..< ?n] = data m" .
  let ?c = "createCanvas (width m) (height m)"
  have cw: "width ?c = width m" and cd: "data ?c = replicate ?n (RGBA 0 0 0 0)"
    by (simp_all add: createCanvas_def)
  have "drawImage ?c m 0 0 (width m) (height m) 0 0 = ?c\<lparr>data := data m\<rparr>"
    by (simp only: drawImage_def cw cd length_replicate M)
  also have "\<dots> = m"
    by (simp add: createCanvas_def)
  finally show ?thesis .
qed

lemma direct_crop_landscape_example:
  "applyCropMode (\<lambda>c s w h. c) ''direct''
     \<lparr>width = 2, height = 2,
        data = [RGBA 1 2 3 255, RGBA 4 5 6 255, RGBA 7 8 9 255, RGBA 10 11 12 255]\<rparr> 2 1 =
   \<lparr>width = 2, height = 1, data = [RGBA 1 2 3 255, RGBA 4 5 6 255]\<rparr>"
  by (simp add: applyCropMode_def createCanvas_def drawImage_def getPixel_def Let_def upt_conv_Cons)

text \<open>
  C7: in direct crop mode (any mode but \<open>resize\<close>), cropping a master image to its own
  size returns the master unchanged, pixel for pixel; the square format is 1200 by 1200,
  the master's size. The master holds \<open>width * height\<close> pixels, and a pixel whose alpha is 0
  is transparent black, as every pixel of a canvas is.
\<close>

theorem C7_direct_crop_identity:
  assumes "cropMode \<noteq> ''resize''"
    and "width master = targetWidth" and "height master = targetHeight"
    and "length (data master) = width master * height master"
    and "\<forall>p \<in> set (data master). alpha p = 0 \<longrightarrow> p = RGBA 0 0 0 0"
  shows "applyCropMode resizeAndCrop cropMode master targetWidth targetHeight = master
         \<and> formatMap ''square'' = Some (masterSize, masterSize)"
  using assms drawImage_whole [of master]
  by (simp add: applyCropMode_def Let_def formatMap_def masterSize_def)

theorem C7_direct_crop_identity_witness:
  "''direct'' \<noteq> ''resize''
   \<and> width \<lparr>width = 1200, height = 1200, data = replicate (1200 * 1200) (RGBA 255 107 107 255)\<rparr> = 1200
   \<and> length (data \<lparr>width = 1200, height = 1200, data = replicate (1200 * 1200) (RGBA 255 107 107 255)\<rparr>) = 1200 * 1200
   \<and> alpha (RGBA 255 107 107 255) \<noteq> 0
   \<and> applyCropMode (\<lambda>c s w h. c) ''direct''
        \<lparr>width = 1200, height = 1200, data = replicate (1200 * 1200) (RGBA 255 107 107 255)\<rparr>
        1200 1200 =
      \<lparr>width = 1200, height = 1200, data = replicate (1200 * 1200) (RGBA 255 107 107 255)\<rparr>
   \<and> applyCropMode (\<lambda>c s w h. c) ''direct''
        \<lparr>width = 2, height = 1, data = [RGBA 1 2 3 255, RGBA 4 5 6 128]\<rparr> 2 1 =
      \<lparr>width = 2, height = 1, data = [RGBA 1 2 3 255, RGBA 4 5 6 128]\<rparr>"
proof -
  let ?m = "\<lparr>width = 1200, height = 1200, data = replicate (1200 * 1200) (RGBA 255 107 107 255)\<rparr>"
  let ?s = "\<lparr>width = 2, height = 1, data = [RGBA 1 2 3 255, RGBA 4 5 6 128]\<rparr>"
  have a: "applyCropMode (\<lambda>c s w h. c) ''direct'' ?m 1200 1200 = ?m"
    using C7_direct_crop_identity [of "''direct''" ?m 1200 1200 "\<lambda>c s w h. c"] by simp
  have b: "applyCropMode (\<lambda>c s w h. c) ''direct'' ?s 2 1 = ?s"
    using C7_direct_crop_identity [of "''direct''" ?s 2 1 "\<lambda>c s w h. c"] by simp
  show ?thesis
    using a b by simp
qed

end
